theory Spec2Isabelle
  imports Main "HOL-Library.List_Lexorder" "HOL-Library.Sublist"
begin

section \<open>Strings\<close>

text \<open>
  A Python \<open>str\<close> is a sequence of Unicode code points, and the program tests code-point
  ranges (U+3040..U+30FF, U+4E00..U+9FFF), so a string is modelled as the list of its
  code points. \<open>ustr_of\<close> reads an ASCII literal.
\<close>

type_synonym ustr = "nat list"

definition ustr_of :: "string \<Rightarrow> ustr" where
  "ustr_of s = map of_char s"

abbreviation (input) NEWLINE :: nat where "NEWLINE \<equiv> 10"
abbreviation (input) TAB :: nat where "TAB \<equiv> 9"
abbreviation (input) SPACE :: nat where "SPACE \<equiv> 32"
abbreviation (input) DQUOTE :: nat where "DQUOTE \<equiv> 34"
abbreviation (input) PERCENT :: nat where "PERCENT \<equiv> 37"
abbreviation (input) SQUOTE :: nat where "SQUOTE \<equiv> 39"
abbreviation (input) DASH :: nat where "DASH \<equiv> 45"
abbreviation (input) DOT :: nat where "DOT \<equiv> 46"
abbreviation (input) EQUALS :: nat where "EQUALS \<equiv> 61"
abbreviation (input) LBRACKET :: nat where "LBRACKET \<equiv> 91"
abbreviation (input) BACKSLASH :: nat where "BACKSLASH \<equiv> 92"
abbreviation (input) RBRACKET :: nat where "RBRACKET \<equiv> 93"


section \<open>Tables of the Unicode database\<close>

text \<open>
  Four library operations used by the program read tables of the interpreter's Unicode
  database, which are not part of the repository: the regular-expression class \<open>\d\<close>
  (decimal digits, category Nd), the white space removed by \<open>str.strip()\<close>, and the
  title-case and lower-case mappings behind \<open>str.capitalize()\<close>. They are parameters
  of the model. A case mapping may yield several code points, and lower-casing depends
  on the context (final sigma), so \<open>lower_at\<close> receives the whole string and an index.
\<close>

record unicode_db =
  isdecimal :: "nat \<Rightarrow> bool"
  isspace :: "nat \<Rightarrow> bool"
  totitle :: "nat \<Rightarrow> ustr"
  lower_at :: "ustr \<Rightarrow> nat \<Rightarrow> ustr"

section \<open>String methods\<close>

text \<open>
  \<open>s.replace(old, new)\<close> replaces the non-overlapping occurrences of \<open>old\<close>, found from
  left to right. In \<open>replace_from\<close> the first argument counts the characters of the
  occurrence just replaced that are still to be passed over. With an empty \<open>old\<close>,
  Python puts \<open>new\<close> before every character and at the end.
\<close>

fun replace_from :: "nat \<Rightarrow> ustr \<Rightarrow> ustr \<Rightarrow> ustr \<Rightarrow> ustr" where
  "replace_from skip old new [] = []"
| "replace_from (Suc skip) old new (c # cs) = replace_from skip old new cs"
| "replace_from 0 old new (c # cs) =
     (if prefix old (c # cs) then new @ replace_from (length old - 1) old new cs
      else c # replace_from 0 old new cs)"

definition py_replace :: "ustr \<Rightarrow> ustr \<Rightarrow> ustr \<Rightarrow> ustr" where
  "py_replace s old new =
     (if old = [] then new @ concat (map (\<lambda>c. c # new) s) else replace_from 0 old new s)"

definition lstrip_chars :: "ustr \<Rightarrow> ustr \<Rightarrow> ustr" where
  "lstrip_chars chars s = dropWhile (\<lambda>c. c \<in> set chars) s"

definition rstrip_chars :: "ustr \<Rightarrow> ustr \<Rightarrow> ustr" where
  "rstrip_chars chars s = rev (dropWhile (\<lambda>c. c \<in> set chars) (rev s))"

definition lstrip :: "unicode_db \<Rightarrow> ustr \<Rightarrow> ustr" where
  "lstrip db s = dropWhile (isspace db) s"

definition rstrip :: "unicode_db \<Rightarrow> ustr \<Rightarrow> ustr" where
  "rstrip db s = rev (dropWhile (isspace db) (rev s))"

definition strip :: "unicode_db \<Rightarrow> ustr \<Rightarrow> ustr" where
  "strip db s = rstrip db (lstrip db s)"

text \<open>
  \<open>s.capitalize()\<close>: the first character is title-cased, every later character is
  lower-cased.
\<close>

definition capitalize :: "unicode_db \<Rightarrow> ustr \<Rightarrow> ustr" where
  "capitalize db s =
     (case s of
        [] \<Rightarrow> []
      | c # cs \<Rightarrow> totitle db c @ concat (map (lower_at db s) [1 ..< length s]))"

definition endswith :: "ustr \<Rightarrow> ustr \<Rightarrow> bool" where
  "endswith s x = (length x \<le> length s \<and> drop (length s - length x) s = x)"

section \<open>check_format_specifiers\<close>

text \<open>
  The pattern is \<^verbatim>\<open>%(?:\d+)?(?:\.\d+)?[diouxXeEfFgGcrs%]\<close>. A digit is neither a dot nor
  a conversion character, so the greedy choice of each digit run is the only one that can
  succeed: the width is the longest run of digits after the percent sign, the precision
  is taken when a dot is followed by at least one digit, and the next character must be
  a conversion character. \<open>match_specifier\<close> gives the token matched at the head of the
  string.
\<close>

definition conversion_chars :: ustr where
  "conversion_chars = ustr_of ''diouxXeEfFgGcrs%''"

definition match_specifier :: "unicode_db \<Rightarrow> ustr \<Rightarrow> ustr option" where
  "match_specifier db s =
     (case s of
        [] \<Rightarrow> None
      | c # cs \<Rightarrow>
          if c \<noteq> PERCENT then None
          else
            let width = takeWhile (isdecimal db) cs;
                r1 = dropWhile (isdecimal db) cs;
                precision =
                  (case r1 of
                     [] \<Rightarrow> []
                   | d # r2 \<Rightarrow>
                       if d = DOT \<and> takeWhile (isdecimal db) r2 \<noteq> []
                       then DOT # takeWhile (isdecimal db) r2 else []);
                r3 = drop (length precision) r1
            in (case r3 of
                  [] \<Rightarrow> None
                | k # _ \<Rightarrow>
                    if k \<in> set conversion_chars
                    then Some (PERCENT # width @ precision @ [k]) else None))"

text \<open>
  \<open>re.findall\<close> tries every position from left to right and resumes after the end of each
  match; \<open>skip\<close> counts the characters of the last match still to be passed over.
\<close>

fun findall_specifiers :: "unicode_db \<Rightarrow> nat \<Rightarrow> ustr \<Rightarrow> ustr list" where
  "findall_specifiers db skip [] = []"
| "findall_specifiers db (Suc skip) (c # cs) = findall_specifiers db skip cs"
| "findall_specifiers db 0 (c # cs) =
     (case match_specifier db (c # cs) of
        Some tok \<Rightarrow> tok # findall_specifiers db (length tok - 1) cs
      | None \<Rightarrow> findall_specifiers db 0 cs)"

definition format_specifiers :: "unicode_db \<Rightarrow> ustr \<Rightarrow> ustr list" where
  "format_specifiers db s = findall_specifiers db 0 s"

text \<open>
  Every fatal error of the program is a \<open>SystemExit\<close> carrying a message; the
  constructors keep what the message is built from. The position of a mismatch is
  \<open>i + 1\<close> for the index \<open>i\<close> of \<open>enumerate\<close>.
\<close>

datatype system_exit =
    CountMismatch ustr ustr
  | SpecifierMismatch nat ustr ustr
  | NoModFolder

fun first_mismatch :: "nat \<Rightarrow> ustr list \<Rightarrow> ustr list \<Rightarrow> system_exit option" where
  "first_mismatch i (orig # origs) (transl # transls) =
     (if orig \<noteq> transl then Some (SpecifierMismatch (i + 1) orig transl)
      else first_mismatch (i + 1) origs transls)"
| "first_mismatch i _ _ = None"

definition check_format_specifiers :: "unicode_db \<Rightarrow> ustr \<Rightarrow> ustr \<Rightarrow> system_exit + unit" where
  "check_format_specifiers db original translated =
     (let original_specifiers = format_specifiers db original;
          translated_specifiers = format_specifiers db translated
      in if length original_specifiers > 0
            \<and> length original_specifiers \<noteq> length translated_specifiers
         then Inl (CountMismatch original translated)
         else (case first_mismatch 0 original_specifiers translated_specifiers of
                 Some e \<Rightarrow> Inl e
               | None \<Rightarrow> Inr ()))"

section \<open>get_path_start_from_mod_folder\<close>

text \<open>
  The pattern is \<^verbatim>\<open>(?:\\)([^\n\\]+(?:_translated_en)\\.*)\<close>. After the opening backslash
  the class \<^verbatim>\<open>[^\n\\]+\<close> cannot pass a backslash, and the suffix must be followed by one,
  so a match at a backslash exists exactly when the path component after it is longer
  than the suffix, ends with it, and is closed by a backslash; the group then runs to
  the end of the line. \<open>re.search\<close> takes the leftmost match.
\<close>

definition mod_folder_suffix :: ustr where
  "mod_folder_suffix = ustr_of ''_translated_en''"

definition match_mod_folder :: "ustr \<Rightarrow> ustr option" where
  "match_mod_folder s =
     (case s of
        [] \<Rightarrow> None
      | c # r \<Rightarrow>
          if c \<noteq> BACKSLASH then None
          else
            let component = takeWhile (\<lambda>x. x \<noteq> NEWLINE \<and> x \<noteq> BACKSLASH) r;
                after = dropWhile (\<lambda>x. x \<noteq> NEWLINE \<and> x \<noteq> BACKSLASH) r
            in (case after of
                  [] \<Rightarrow> None
                | b # tail \<Rightarrow>
                    if b = BACKSLASH \<and> length mod_folder_suffix < length component
                       \<and> endswith component mod_folder_suffix
                    then Some (component @ BACKSLASH # takeWhile (\<lambda>x. x \<noteq> NEWLINE) tail)
                    else None))"

fun search_mod_folder :: "ustr \<Rightarrow> ustr option" where
  "search_mod_folder [] = None"
| "search_mod_folder (c # cs) =
     (case match_mod_folder (c # cs) of
        Some g \<Rightarrow> Some g
      | None \<Rightarrow> search_mod_folder cs)"

definition get_path_start_from_mod_folder :: "ustr \<Rightarrow> system_exit + ustr" where
  "get_path_start_from_mod_folder full_path =
     (case search_mod_folder full_path of
        Some path \<Rightarrow> Inr (py_replace path (mod_folder_suffix @ [BACKSLASH]) [BACKSLASH])
      | None \<Rightarrow> Inl NoModFolder)"

section \<open>escape_quotes\<close>

text \<open>
  \<^verbatim>\<open>re.sub(r'(?<!\\)"', r"\"", text)\<close> scans \<open>text\<close> from left to right and replaces
  every quote character whose predecessor in \<open>text\<close> is not a backslash by a backslash
  followed by the quote. The look-behind reads the string being scanned, never the
  output, so the scan only has to remember whether the previous input character was a
  backslash. A quote at the very start has no predecessor and is replaced.
\<close>

fun sub_unescaped :: "nat \<Rightarrow> bool \<Rightarrow> ustr \<Rightarrow> ustr" where
  "sub_unescaped q after_bs [] = []"
| "sub_unescaped q after_bs (c # cs) =
     (if c = q \<and> \<not> after_bs then [BACKSLASH, q] else [c])
       @ sub_unescaped q (c = BACKSLASH) cs"

definition escape_quotes :: "ustr \<Rightarrow> ustr" where
  "escape_quotes text =
     (let text1 = sub_unescaped DQUOTE False text
      in sub_unescaped SQUOTE False text1)"

text \<open>
  \<open>escaped q after_bs s\<close>: every occurrence of \<open>q\<close> in \<open>s\<close> directly follows a backslash
  (\<open>after_bs\<close> says whether the character before \<open>s\<close> is one).
\<close>

fun escaped :: "nat \<Rightarrow> bool \<Rightarrow> ustr \<Rightarrow> bool" where
  "escaped q after_bs [] = True"
| "escaped q after_bs (c # cs) = ((c \<noteq> q \<or> after_bs) \<and> escaped q (c = BACKSLASH) cs)"

section \<open>The translation cache and translate_text\<close>

text \<open>
  A cache record is a Python dict with up to four keys; a missing key is \<open>None\<close>. The
  values read from the sheet are taken to be strings.
\<close>

record entry =
  Translated_Text :: "ustr option"
  Is_Comment :: "ustr option"
  Is_Quotes :: "ustr option"
  Found_In :: "ustr list option"

definition empty_entry :: entry where
  "empty_entry =
     \<lparr>Translated_Text = None, Is_Comment = None, Is_Quotes = None, Found_In = None\<rparr>"

definition check_mark :: ustr where
  "check_mark = [0x2714]"

datatype log_record =
    Fatal system_exit
  | TranslateError ustr
  | TranslateFailed ustr nat
  | FileError

text \<open>
  The global state of a run: the cache, the list of skipped fragments, and the effects
  on the outside: \<open>requests\<close> lists the texts passed to \<open>translator.translate\<close>, oldest
  first, \<open>error_log\<close> the records written by \<open>logging.error\<close>, \<open>sleeps\<close> the arguments of
  \<open>time.sleep\<close>.
\<close>

record state =
  translations_cache :: "ustr \<rightharpoonup> entry"
  japanese_skip :: "ustr list"
  requests :: "ustr list"
  error_log :: "log_record list"
  sleeps :: "nat list"

text \<open>
  The outside world: the Unicode tables, the translation backend and the formatter.
  \<open>translate env n text\<close> is the answer of the backend to the request number \<open>n\<close> of the
  run (counted from 0): \<open>Some\<close> of the \<open>text\<close> attribute of the answer, or \<open>None\<close> when
  the call raises an \<open>Exception\<close>. \<open>stylua env content\<close> is the formatted text, or \<open>None\<close>
  when the tool is not found or fails.
\<close>

record env =
  unicode :: unicode_db
  translate :: "nat \<Rightarrow> ustr \<Rightarrow> ustr option"
  stylua :: "ustr \<Rightarrow> ustr option"

text \<open>
  \<open>translations_cache.get(text) or {}\<close> is the cached dict itself unless the key is
  missing or the dict is empty. The flag says whether \<open>translated_entry\<close> is the cached
  object; if it is, every mutation of it is a mutation of the cache (\<open>write_back\<close>).
\<close>

definition get_or_new :: "(ustr \<rightharpoonup> entry) \<Rightarrow> ustr \<Rightarrow> entry \<times> bool" where
  "get_or_new cache text =
     (case cache text of
        None \<Rightarrow> (empty_entry, False)
      | Some e \<Rightarrow> if e = empty_entry then (empty_entry, False) else (e, True))"

definition write_back :: "bool \<Rightarrow> ustr \<Rightarrow> entry \<Rightarrow> state \<Rightarrow> state" where
  "write_back aliased text e st =
     (if aliased then st\<lparr>translations_cache := (translations_cache st)(text \<mapsto> e)\<rparr> else st)"

definition hiragana_katakana :: "nat \<Rightarrow> bool" where
  "hiragana_katakana c = (0x3040 \<le> c \<and> c \<le> 0x30FF)"

definition japanese_mandarin :: "nat \<Rightarrow> bool" where
  "japanese_mandarin c = ((0x3040 \<le> c \<and> c \<le> 0x30FF) \<or> (0x4E00 \<le> c \<and> c \<le> 0x9FFF))"

text \<open>
  The translated text recorded for a fragment: empty when the fragment has no record,
  the record has no \<open>Translated_Text\<close>, or that text is empty.
\<close>

definition cached_translation :: "state \<Rightarrow> ustr \<Rightarrow> ustr" where
  "cached_translation st text =
     (case translations_cache st text of
        None \<Rightarrow> []
      | Some e \<Rightarrow> (case Translated_Text e of None \<Rightarrow> [] | Some t \<Rightarrow> t))"

text \<open>
  The loop \<open>for attempt in range(retries)\<close>, with \<open>remaining = retries - attempt\<close>. When
  the range is empty the function falls off its end and returns \<open>None\<close>. A \<open>SystemExit\<close>
  raised by the check inside \<open>try\<close> is not an \<open>Exception\<close> and leaves the loop.
\<close>

fun translate_attempts ::
  "env \<Rightarrow> ustr \<Rightarrow> entry \<Rightarrow> nat \<Rightarrow> nat \<Rightarrow> state \<Rightarrow> (system_exit + ustr option) \<times> state" where
  "translate_attempts env text translated_entry retries 0 st = (Inr None, st)"
| "translate_attempts env text translated_entry retries (Suc remaining) st =
     (let attempt = retries - Suc remaining;
          st1 = st\<lparr>requests := requests st @ [text]\<rparr>
      in case translate env (length (requests st)) text of
           Some raw \<Rightarrow>
             (let translated_text =
                    py_replace (capitalize (unicode env) raw)
                      [BACKSLASH, SPACE, 0x6E] [BACKSLASH, 0x6E]
              in case check_format_specifiers (unicode env) text translated_text of
                   Inl e \<Rightarrow> (Inl e, st1\<lparr>error_log := error_log st1 @ [Fatal e]\<rparr>)
                 | Inr _ \<Rightarrow>
                     (Inr (Some translated_text),
                      st1\<lparr>translations_cache := (translations_cache st1)
                             (text \<mapsto> translated_entry\<lparr>Translated_Text := Some translated_text\<rparr>)\<rparr>))
         | None \<Rightarrow>
             (let st2 = st1\<lparr>error_log := error_log st1 @ [TranslateError text]\<rparr>
              in if attempt < retries - 1
                 then translate_attempts env text translated_entry retries remaining
                        (st2\<lparr>sleeps := sleeps st2 @ [1]\<rparr>)
                 else (Inr (Some text),
                       st2\<lparr>error_log := error_log st2 @ [TranslateFailed text retries]\<rparr>)))"

text \<open>
  The first statements of \<open>translate_text\<close>: the role flag is set and \<open>Found_In\<close> is
  created if missing (\<open>record_role\<close>); once the relative path is known it is appended
  unless present, and the list sorted (\<open>record_path\<close>).
\<close>

definition record_role :: "bool \<Rightarrow> entry \<Rightarrow> entry" where
  "record_role isComment translated_entry =
     (let entry1 = (if isComment then translated_entry\<lparr>Is_Comment := Some check_mark\<rparr>
                    else translated_entry\<lparr>Is_Quotes := Some check_mark\<rparr>)
      in if Found_In entry1 = None then entry1\<lparr>Found_In := Some []\<rparr> else entry1)"

definition record_path :: "ustr \<Rightarrow> entry \<Rightarrow> entry" where
  "record_path relative_path translated_entry =
     (let found = (case Found_In translated_entry of None \<Rightarrow> [] | Some l \<Rightarrow> l)
      in if relative_path \<notin> set found
         then translated_entry\<lparr>Found_In := Some (sort (found @ [relative_path]))\<rparr>
         else translated_entry)"

definition translate_text ::
  "env \<Rightarrow> ustr \<Rightarrow> bool \<Rightarrow> ustr \<Rightarrow> nat \<Rightarrow> state \<Rightarrow> (system_exit + ustr option) \<times> state" where
  "translate_text env text isComment file_path retries st =
     (let (entry0, aliased) = get_or_new (translations_cache st) text;
          entry2 = record_role isComment entry0
      in case get_path_start_from_mod_folder file_path of
           Inl e \<Rightarrow>
             (let st0 = write_back aliased text entry2 st
              in (Inl e, st0\<lparr>error_log := error_log st0 @ [Fatal e]\<rparr>))
         | Inr relative_path \<Rightarrow>
             (let translated_entry = record_path relative_path entry2;
                  st0 = write_back aliased text translated_entry st;
                  cached = (case Translated_Text translated_entry of None \<Rightarrow> [] | Some t \<Rightarrow> t)
              in if cached \<noteq> [] then
                   (case check_format_specifiers (unicode env) text cached of
                      Inl e \<Rightarrow> (Inl e, st0\<lparr>error_log := error_log st0 @ [Fatal e]\<rparr>)
                    | Inr _ \<Rightarrow>
                        (Inr (Some cached),
                         st0\<lparr>translations_cache :=
                               (translations_cache st0)(text \<mapsto> translated_entry)\<rparr>))
                 else if list_ex hiragana_katakana text then
                   (Inr (Some text),
                    st0\<lparr>translations_cache := (translations_cache st0)
                           (text \<mapsto> translated_entry\<lparr>Translated_Text := Some text\<rparr>),
                        japanese_skip := japanese_skip st0 @ [text]\<rparr>)
                 else translate_attempts env text translated_entry retries retries st0))"

text \<open>
  The text stored for an answer \<open>raw\<close> of the backend:
  \<^verbatim>\<open>translated.text.capitalize().replace("\\ n", "\\n")\<close>.
\<close>

abbreviation (input) normalized :: "env \<Rightarrow> ustr \<Rightarrow> ustr" where
  "normalized env raw \<equiv>
     py_replace (capitalize (unicode env) raw) [BACKSLASH, SPACE, 0x6E] [BACKSLASH, 0x6E]"

text \<open>
  The record and the state at the point where \<open>translate_text\<close> reads the cached
  translation, after the sighting has been recorded.
\<close>

definition sighted_entry :: "state \<Rightarrow> ustr \<Rightarrow> bool \<Rightarrow> ustr \<Rightarrow> entry" where
  "sighted_entry st text isComment relative_path =
     record_path relative_path (record_role isComment (fst (get_or_new (translations_cache st) text)))"

definition sighted_state :: "state \<Rightarrow> ustr \<Rightarrow> bool \<Rightarrow> ustr \<Rightarrow> state" where
  "sighted_state st text isComment relative_path =
     write_back (snd (get_or_new (translations_cache st) text)) text
       (sighted_entry st text isComment relative_path) st"

section \<open>translate_file\<close>

text \<open>
  Comments are the matches of \<^verbatim>\<open>--[^-\n]*(?:-[^-\n]+)*\<close>: after the two dashes, the
  characters up to the end of the line, where a dash is taken only if the character
  after it is neither a dash nor a newline. The pattern has nothing after the
  repetitions, so the greedy match is the match.
\<close>

fun comment_body :: "ustr \<Rightarrow> ustr" where
  "comment_body [] = []"
| "comment_body [c] = (if c = NEWLINE \<or> c = DASH then [] else [c])"
| "comment_body (c # d # ds) =
     (if c = NEWLINE then []
      else if c = DASH then
        (if d = DASH \<or> d = NEWLINE then [] else c # d # comment_body ds)
      else c # comment_body (d # ds))"

definition match_comment :: "ustr \<Rightarrow> ustr option" where
  "match_comment s =
     (case s of
        a # b # r \<Rightarrow> if a = DASH \<and> b = DASH then Some (DASH # DASH # comment_body r) else None
      | _ \<Rightarrow> None)"

fun findall_comments :: "nat \<Rightarrow> ustr \<Rightarrow> ustr list" where
  "findall_comments skip [] = []"
| "findall_comments (Suc skip) (c # cs) = findall_comments skip cs"
| "findall_comments 0 (c # cs) =
     (case match_comment (c # cs) of
        Some m \<Rightarrow> m # findall_comments (length m - 1) cs
      | None \<Rightarrow> findall_comments 0 cs)"

text \<open>
  Quoted strings are the matches of \<^verbatim>\<open>(?<!\\)"([^"\n\\]*(?:\\.[^"\n\\]*)*)"\<close> (and the same
  with the single quote); \<open>findall\<close> returns the group, the text between the quotes.
  \<open>quoted_body q s\<close> reads \<open>s\<close> after an opening quote \<open>q\<close>: a backslash takes the next
  character with it unless that is a newline, and the first quote not taken so closes
  the string. The character read determines the step, so the match is unique.
  In \<open>findall_quoted\<close>, \<open>after_bs\<close> says whether the previous character of the buffer is
  a backslash (the look-behind).
\<close>

fun quoted_body :: "nat \<Rightarrow> ustr \<Rightarrow> ustr option" where
  "quoted_body q [] = None"
| "quoted_body q [c] = (if c = q then Some [] else None)"
| "quoted_body q (c # d # ds) =
     (if c = q then Some []
      else if c = NEWLINE then None
      else if c = BACKSLASH then
        (if d = NEWLINE then None else map_option (\<lambda>r. c # d # r) (quoted_body q ds))
      else map_option (\<lambda>r. c # r) (quoted_body q (d # ds)))"

fun findall_quoted :: "nat \<Rightarrow> bool \<Rightarrow> nat \<Rightarrow> ustr \<Rightarrow> ustr list" where
  "findall_quoted q after_bs skip [] = []"
| "findall_quoted q after_bs (Suc skip) (c # cs) = findall_quoted q (c = BACKSLASH) skip cs"
| "findall_quoted q after_bs 0 (c # cs) =
     (if c = q \<and> \<not> after_bs then
        (case quoted_body q cs of
           Some string \<Rightarrow> string # findall_quoted q (c = BACKSLASH) (length string + 1) cs
         | None \<Rightarrow> findall_quoted q (c = BACKSLASH) 0 cs)
      else findall_quoted q (c = BACKSLASH) 0 cs)"

definition translatable :: "unicode_db \<Rightarrow> ustr \<Rightarrow> bool" where
  "translatable db s = (list_ex japanese_mandarin s \<and> strip db s \<noteq> [])"

definition comment_leading_chars :: ustr where
  "comment_leading_chars = ustr_of ''-[= .'' @ [TAB]"

definition comment_trailing_chars :: ustr where
  "comment_trailing_chars = ustr_of '']-= .'' @ [TAB]"

text \<open>
  An exception inside \<open>translate_file\<close>: a \<open>SystemExit\<close>, which passes through
  \<open>except Exception\<close>, or the \<open>TypeError\<close> of using a \<open>None\<close> returned by
  \<open>translate_text\<close> as a string, which is caught and logged.
\<close>

datatype file_exn = Exit system_exit | TypeError

definition comment_leading :: "ustr \<Rightarrow> ustr" where
  "comment_leading comment =
     take (length comment - length (lstrip_chars comment_leading_chars comment)) comment"

definition comment_trailing :: "ustr \<Rightarrow> ustr" where
  "comment_trailing comment =
     drop (length (rstrip_chars comment_trailing_chars comment)) comment"

definition trimmed_comment :: "ustr \<Rightarrow> ustr" where
  "trimmed_comment comment =
     rstrip_chars comment_trailing_chars (lstrip_chars comment_leading_chars comment)"

text \<open>The body of the loop over the comments, for one comment.\<close>

definition comment_step ::
  "env \<Rightarrow> ustr \<Rightarrow> ustr \<Rightarrow> ustr \<Rightarrow> state \<Rightarrow> (file_exn + ustr) \<times> state" where
  "comment_step env file_path comment translated_content st =
     (if translatable (unicode env) comment then
        (case translate_text env (trimmed_comment comment) True file_path 100 st of
           (Inl e, st') \<Rightarrow> (Inl (Exit e), st')
         | (Inr None, st') \<Rightarrow> (Inl TypeError, st')
         | (Inr (Some translated_comment), st') \<Rightarrow>
             (Inr (py_replace translated_content comment
                     (comment_leading comment @ translated_comment @ comment_trailing comment)),
              st'))
      else (Inr translated_content, st))"

fun translate_comments ::
  "env \<Rightarrow> ustr \<Rightarrow> ustr list \<Rightarrow> ustr \<Rightarrow> state \<Rightarrow> (file_exn + ustr) \<times> state" where
  "translate_comments env file_path [] translated_content st = (Inr translated_content, st)"
| "translate_comments env file_path (comment # comments) translated_content st =
     (case comment_step env file_path comment translated_content st of
        (Inl e, st') \<Rightarrow> (Inl e, st')
      | (Inr content', st') \<Rightarrow> translate_comments env file_path comments content' st')"

definition leading_space :: "unicode_db \<Rightarrow> ustr \<Rightarrow> ustr" where
  "leading_space db string = take (length string - length (lstrip db string)) string"

definition trailing_space :: "unicode_db \<Rightarrow> ustr \<Rightarrow> ustr" where
  "trailing_space db string = drop (length (rstrip db string)) string"

text \<open>
  The body of the loops over the double-quoted and the single-quoted strings, for one
  string; \<open>q\<close> is the quote of the text searched for. The two loops of the source differ
  in nothing else: the replacement is double-quoted in both.
\<close>

definition quoted_step ::
  "env \<Rightarrow> nat \<Rightarrow> ustr \<Rightarrow> ustr \<Rightarrow> ustr \<Rightarrow> state \<Rightarrow> (file_exn + ustr) \<times> state" where
  "quoted_step env q file_path string translated_content st =
     (if translatable (unicode env) string then
        (case translate_text env (strip (unicode env) string) False file_path 100 st of
           (Inl e, st') \<Rightarrow> (Inl (Exit e), st')
         | (Inr None, st') \<Rightarrow> (Inl TypeError, st')
         | (Inr (Some translated), st') \<Rightarrow>
             (let translated_string =
                    leading_space (unicode env) string @ escape_quotes translated
                      @ trailing_space (unicode env) string
              in (Inr (py_replace translated_content
                         (q # string @ [q]) (DQUOTE # translated_string @ [DQUOTE])),
                  st')))
      else (Inr translated_content, st))"

fun translate_quoted ::
  "env \<Rightarrow> nat \<Rightarrow> ustr \<Rightarrow> ustr list \<Rightarrow> ustr \<Rightarrow> state \<Rightarrow> (file_exn + ustr) \<times> state" where
  "translate_quoted env q file_path [] translated_content st = (Inr translated_content, st)"
| "translate_quoted env q file_path (string # strings) translated_content st =
     (case quoted_step env q file_path string translated_content st of
        (Inl e, st') \<Rightarrow> (Inl e, st')
      | (Inr content', st') \<Rightarrow> translate_quoted env q file_path strings content' st')"

definition format_lua_content :: "env \<Rightarrow> ustr \<Rightarrow> ustr" where
  "format_lua_content env content =
     (case stylua env content of Some formatted_content \<Rightarrow> formatted_content | None \<Rightarrow> content)"

definition file_failed :: "file_exn \<Rightarrow> state \<Rightarrow> (system_exit + ustr option) \<times> state" where
  "file_failed x st =
     (case x of
        Exit e \<Rightarrow> (Inl e, st)
      | TypeError \<Rightarrow> (Inr None, st\<lparr>error_log := error_log st @ [FileError]\<rparr>))"

text \<open>
  \<open>translate_file\<close> on a file whose text is \<open>original_content\<close>. The result is \<open>Some\<close> of
  the text written back to the file, or \<open>None\<close> when the file is not written.
\<close>

definition translate_file ::
  "env \<Rightarrow> ustr \<Rightarrow> ustr \<Rightarrow> state \<Rightarrow> (system_exit + ustr option) \<times> state" where
  "translate_file env file_path original_content st =
     (let comments = findall_comments 0 original_content
      in case translate_comments env file_path comments original_content st of
           (Inl x, st1) \<Rightarrow> file_failed x st1
         | (Inr content1, st1) \<Rightarrow>
             (let double_quoted_strings = findall_quoted DQUOTE False 0 content1
              in case translate_quoted env DQUOTE file_path double_quoted_strings content1 st1 of
                   (Inl x, st2) \<Rightarrow> file_failed x st2
                 | (Inr content2, st2) \<Rightarrow>
                     (let single_quoted_strings = findall_quoted SQUOTE False 0 content2
                      in case translate_quoted env SQUOTE file_path single_quoted_strings
                                content2 st2 of
                           (Inl x, st3) \<Rightarrow> file_failed x st3
                         | (Inr translated_content, st3) \<Rightarrow>
                             if translated_content \<noteq> original_content
                             then (Inr (Some (format_lua_content env translated_content)), st3)
                             else (Inr None, st3))))"

section \<open>save_translations_to_google_sheets\<close>

text \<open>
  The store is outside the program; a \<open>store\<close> fixes how it answers during one save:
  whether \<open>get_gspread_client\<close> succeeds, the outcome of each attempt to open the sheet,
  how far the upload gets, and whether the local file can be written. The rows written
  are not modelled, only the control flow and its effects.
\<close>

datatype open_outcome = Opened | HttpError nat | OtherException

datatype upload_outcome = Uploaded | FailsBeforeClear | FailsAtClear | FailsAtUpdate

record store =
  client_ok :: bool
  open_sheet :: "nat \<Rightarrow> open_outcome"
  upload :: upload_outcome
  backup_ok :: bool

datatype save_exn = RaisedHttpError nat | RaisedOther

datatype save_event =
    Slept nat
  | Logged
  | SheetCleared
  | SheetUpdated
  | BackupWritten

fun open_attempts ::
  "store \<Rightarrow> nat \<Rightarrow> nat \<Rightarrow> save_event list \<Rightarrow> (save_exn + bool) \<times> save_event list" where
  "open_attempts s retries 0 events = (Inr False, events)"
| "open_attempts s retries (Suc remaining) events =
     (let attempt = retries - Suc remaining
      in case open_sheet s attempt of
           Opened \<Rightarrow> (Inr True, events)
         | HttpError status \<Rightarrow>
             if status \<in> set [500, 503]
             then open_attempts s retries remaining (events @ [Slept (2 ^ attempt)])
             else (Inl (RaisedHttpError status), events @ [Logged])
         | OtherException \<Rightarrow> (Inl RaisedOther, events))"

definition save_to_local_backup :: "store \<Rightarrow> save_event list \<Rightarrow> save_event list" where
  "save_to_local_backup s events =
     (if backup_ok s then events @ [BackupWritten] else events @ [Logged])"

definition save_translations_to_google_sheets ::
  "store \<Rightarrow> (save_exn + unit) \<times> save_event list" where
  "save_translations_to_google_sheets s =
     (if \<not> client_ok s then (Inl RaisedOther, [])
      else
        let retries = 3
        in case open_attempts s retries retries [] of
             (Inl e, events) \<Rightarrow> (Inl e, events)
           | (Inr False, events) \<Rightarrow> (Inr (), save_to_local_backup s (events @ [Logged]))
           | (Inr True, events) \<Rightarrow>
               (case upload s of
                  Uploaded \<Rightarrow> (Inr (), events @ [SheetCleared, SheetUpdated])
                | FailsBeforeClear \<Rightarrow> (Inr (), save_to_local_backup s (events @ [Logged]))
                | FailsAtClear \<Rightarrow> (Inr (), save_to_local_backup s (events @ [Logged]))
                | FailsAtUpdate \<Rightarrow>
                    (Inr (), save_to_local_backup s (events @ [SheetCleared, Logged]))))"

section \<open>Concrete inputs\<close>

text \<open>
  The tables restricted to ASCII. They agree with the interpreter's on U+0000..U+007F,
  and on the kana and the CJK ideographs, which have no case and are neither digits nor
  white space. The concrete inputs below contain no other character.
\<close>

definition ascii_db :: unicode_db where
  "ascii_db =
     \<lparr>isdecimal = (\<lambda>c. 0x30 \<le> c \<and> c \<le> 0x39),
      isspace = (\<lambda>c. c \<in> set [9, 10, 11, 12, 13, 28, 29, 30, 31, 32]),
      totitle = (\<lambda>c. if 0x61 \<le> c \<and> c \<le> 0x7A then [c - 32] else [c]),
      lower_at = (\<lambda>s i. if 0x41 \<le> s ! i \<and> s ! i \<le> 0x5A then [s ! i + 32] else [s ! i])\<rparr>"

text \<open>
  A backend that answers from a table and raises on every other text, and no formatter
  (the path of the tool in the source is a placeholder).
\<close>

definition example_env :: "(ustr \<times> ustr) list \<Rightarrow> env" where
  "example_env answers =
     \<lparr>unicode = ascii_db,
      translate = (\<lambda>n text. map_of answers text),
      stylua = (\<lambda>content. None)\<rparr>"

definition example_path :: ustr where
  "example_path = BACKSLASH # ustr_of ''mod_translated_en'' @ BACKSLASH # ustr_of ''main.lua''"

definition empty_state :: state where
  "empty_state =
     \<lparr>translations_cache = Map.empty, japanese_skip = [], requests = [],
      error_log = [], sleeps = []\<rparr>"

text \<open>
  Two fragments: the ideographs U+4F60 U+597D, and five hiragana. A state whose cache
  holds a translation with a placeholder, as loaded from the sheet.
\<close>

definition ni_hao :: ustr where
  "ni_hao = [0x4F60, 0x597D]"

definition konnichiwa :: ustr where
  "konnichiwa = [0x3053, 0x3093, 0x306B, 0x3061, 0x306F]"

definition cached_state :: state where
  "cached_state =
     empty_state\<lparr>translations_cache :=
       [ni_hao @ ustr_of '' %s'' \<mapsto>
          \<lparr>Translated_Text = Some (ustr_of ''Hello %s''), Is_Comment = Some [],
           Is_Quotes = Some check_mark, Found_In = Some []\<rparr>]\<rparr>"

text \<open>
  A state whose cache holds two translations that do not fit their originals: one
  without the placeholder, one with another conversion.
\<close>

definition rejecting_state :: state where
  "rejecting_state =
     empty_state\<lparr>translations_cache :=
       [ni_hao @ ustr_of '' %s'' \<mapsto>
          \<lparr>Translated_Text = Some (ustr_of ''Hello''), Is_Comment = Some [],
           Is_Quotes = Some check_mark, Found_In = Some []\<rparr>,
        ni_hao @ ustr_of '' %d'' \<mapsto>
          \<lparr>Translated_Text = Some (ustr_of ''Hello %s''), Is_Comment = Some [],
           Is_Quotes = Some check_mark, Found_In = Some []\<rparr>]\<rparr>"

text \<open>A store whose every attempt to open the sheet fails with the same HTTP status.\<close>

definition failing_store :: "nat \<Rightarrow> store" where
  "failing_store status =
     \<lparr>client_ok = True, open_sheet = (\<lambda>attempt. HttpError status),
      upload = Uploaded, backup_ok = True\<rparr>"

text \<open>
  A store that answers the attempts to open the sheet from a list, and opens the sheet
  once the list is used up.
\<close>

definition scripted_store :: "open_outcome list \<Rightarrow> store" where
  "scripted_store outcomes =
     \<lparr>client_ok = True,
      open_sheet = (\<lambda>attempt. if attempt < length outcomes then outcomes ! attempt else Opened),
      upload = Uploaded, backup_ok = True\<rparr>"

text \<open>Files, comments and strings for \<open>translate_file\<close>, with backends that answer them.\<close>

definition ni_hao_ma :: ustr where
  "ni_hao_ma = [0x4F60, 0x597D, 0x5417]"

definition prefix_comments :: ustr where
  "prefix_comments = ustr_of ''-- '' @ ni_hao @ NEWLINE # ustr_of ''-- '' @ ni_hao_ma"

definition greetings_env :: env where
  "greetings_env = example_env [(ni_hao, ustr_of ''hello''), (ni_hao_ma, ustr_of ''how are you'')]"

definition decorated_comment :: ustr where
  "decorated_comment = ustr_of ''--- '' @ ni_hao @ ustr_of '' ''"

definition nested_quotes :: ustr where
  "nested_quotes =
     ustr_of ''a='' @ [SQUOTE, 0x4F60, BACKSLASH, BACKSLASH, SQUOTE]
       @ ustr_of '' b='' @ [SQUOTE, 0x78, BACKSLASH, SQUOTE, 0x4F60, BACKSLASH, BACKSLASH, SQUOTE]"

definition nested_env :: env where
  "nested_env =
     example_env [([0x4F60, BACKSLASH, BACKSLASH], ustr_of ''you''),
                  ([0x78, BACKSLASH, SQUOTE, 0x4F60, BACKSLASH, BACKSLASH], ustr_of ''your'')]"

definition spaced_string :: ustr where
  "spaced_string = SPACE # ni_hao @ [SPACE]"

definition quoting_env :: env where
  "quoting_env = example_env [(ni_hao, ustr_of ''it's '' @ DQUOTE # ustr_of ''hi'' @ [DQUOTE])]"

section \<open>Properties of escape_quotes\<close>

lemma sub_unescaped_id: "escaped q b s \<Longrightarrow> sub_unescaped q b s = s"
  by (induction s arbitrary: b) auto

lemma escaped_sub_unescaped:
  "q \<noteq> BACKSLASH \<Longrightarrow> escaped q b (sub_unescaped q b s)"
  by (induction s arbitrary: b) auto

lemma escaped_sub_unescaped_other:
  "q \<noteq> BACKSLASH \<Longrightarrow> q' \<noteq> BACKSLASH \<Longrightarrow> q \<noteq> q' \<Longrightarrow> escaped q b s
     \<Longrightarrow> escaped q b (sub_unescaped q' b s)"
  by (induction s arbitrary: b) auto

lemma escaped_escape_quotes:
  "escaped DQUOTE False (escape_quotes s)" "escaped SQUOTE False (escape_quotes s)"
  by (simp_all add: escape_quotes_def escaped_sub_unescaped escaped_sub_unescaped_other)

text \<open>
  C10. \<open>escape_quotes\<close> is idempotent: applying it to its own output changes nothing,
  since in that output every quote character of either kind already follows a backslash.
\<close>

theorem escape_quotes_idempotent:
  "escape_quotes (escape_quotes s) = escape_quotes s"
proof -
  let ?e = "escape_quotes s"
  have "sub_unescaped DQUOTE False ?e = ?e"
    by (rule sub_unescaped_id) (rule escaped_escape_quotes)
  moreover have "sub_unescaped SQUOTE False ?e = ?e"
    by (rule sub_unescaped_id) (rule escaped_escape_quotes)
  ultimately show ?thesis
    by (simp add: escape_quotes_def [of ?e])
qed

text \<open>C10 on a text with both kinds of quote.\<close>

theorem escape_quotes_idempotent_witness:
  "escape_quotes (ustr_of ''it's \"x\"'') = [105, 116, 92, 39, 115, 32, 92, 34, 120, 92, 34]
   \<and> escape_quotes (escape_quotes (ustr_of ''it's \"x\"'')) = escape_quotes (ustr_of ''it's \"x\"'')"
proof
  show "escape_quotes (ustr_of ''it's \"x\"'') = [105, 116, 92, 39, 115, 32, 92, 34, 120, 92, 34]"
    by (simp add: escape_quotes_def ustr_of_def)
  show "escape_quotes (escape_quotes (ustr_of ''it's \"x\"'')) = escape_quotes (ustr_of ''it's \"x\"'')"
    by (rule escape_quotes_idempotent)
qed

section \<open>Properties of check_format_specifiers\<close>

lemma first_mismatch_same: "first_mismatch i xs xs = None"
  by (induction xs arbitrary: i) auto

lemma first_mismatch_at:
  "k < length xs \<Longrightarrow> k < length ys \<Longrightarrow> xs ! k \<noteq> ys ! k \<Longrightarrow> (\<forall>j<k. xs ! j = ys ! j)
     \<Longrightarrow> first_mismatch i xs ys = Some (SpecifierMismatch (i + k + 1) (xs ! k) (ys ! k))"
proof (induction i xs ys arbitrary: k rule: first_mismatch.induct)
  case (1 i orig origs transl transls)
  show ?case
  proof (cases k)
    case 0
    with "1.prems" show ?thesis by simp
  next
    case (Suc k')
    from "1.prems" Suc have eq: "orig = transl" by auto
    from "1.prems" Suc have "\<forall>j<k'. origs ! j = transls ! j" by auto
    with "1.IH" [of k'] "1.prems" Suc eq show ?thesis by simp
  qed
qed simp_all

text \<open>
  C2. If the original has no placeholder, \<open>check_format_specifiers\<close> returns normally
  whatever the translated text is. Otherwise it exits with a count mismatch if the two
  strings have different numbers of placeholders, and with a mismatch at position
  \<open>k + 1\<close> if the numbers are equal and \<open>k\<close> is the first index at which the two
  tokens differ as texts. If all the tokens are equal it returns normally.
\<close>

theorem check_format_specifiers_cases:
  "(format_specifiers db original = []
      \<longrightarrow> check_format_specifiers db original translated = Inr ())
   \<and> (format_specifiers db original \<noteq> []
        \<and> length (format_specifiers db original) \<noteq> length (format_specifiers db translated)
      \<longrightarrow> check_format_specifiers db original translated = Inl (CountMismatch original translated))
   \<and> (format_specifiers db original \<noteq> []
        \<and> length (format_specifiers db original) = length (format_specifiers db translated)
        \<and> k < length (format_specifiers db original)
        \<and> format_specifiers db original ! k \<noteq> format_specifiers db translated ! k
        \<and> (\<forall>j<k. format_specifiers db original ! j = format_specifiers db translated ! j)
      \<longrightarrow> check_format_specifiers db original translated
            = Inl (SpecifierMismatch (k + 1) (format_specifiers db original ! k)
                     (format_specifiers db translated ! k)))
   \<and> (format_specifiers db original = format_specifiers db translated
      \<longrightarrow> check_format_specifiers db original translated = Inr ())"
proof (intro conjI impI)
  assume "format_specifiers db original = []"
  then show "check_format_specifiers db original translated = Inr ()"
    by (simp add: check_format_specifiers_def)
next
  assume "format_specifiers db original \<noteq> []
        \<and> length (format_specifiers db original) \<noteq> length (format_specifiers db translated)"
  then show "check_format_specifiers db original translated = Inl (CountMismatch original translated)"
    by (simp add: check_format_specifiers_def)
next
  assume a: "format_specifiers db original \<noteq> []
        \<and> length (format_specifiers db original) = length (format_specifiers db translated)
        \<and> k < length (format_specifiers db original)
        \<and> format_specifiers db original ! k \<noteq> format_specifiers db translated ! k
        \<and> (\<forall>j<k. format_specifiers db original ! j = format_specifiers db translated ! j)"
  then have "first_mismatch 0 (format_specifiers db original) (format_specifiers db translated)
      = Some (SpecifierMismatch (0 + k + 1) (format_specifiers db original ! k)
                     (format_specifiers db translated ! k))"
    by (intro first_mismatch_at) auto
  with a show "check_format_specifiers db original translated
            = Inl (SpecifierMismatch (k + 1) (format_specifiers db original ! k)
                     (format_specifiers db translated ! k))"
    by (simp add: check_format_specifiers_def)
next
  assume "format_specifiers db original = format_specifiers db translated"
  then show "check_format_specifiers db original translated = Inr ()"
    by (simp add: check_format_specifiers_def first_mismatch_same)
qed

lemmas specifier_eval =
  format_specifiers_def match_specifier_def conversion_chars_def ascii_db_def ustr_of_def Let_def

lemma format_specifiers_example1: "format_specifiers ascii_db (ustr_of ''Player %s has %d points'') = [ustr_of ''%s'', ustr_of ''%d'']"
  by (simp add: specifier_eval)

lemma format_specifiers_example2: "format_specifiers ascii_db (ustr_of ''%s has %5d points'') = [ustr_of ''%s'', ustr_of ''%5d'']"
  by (simp add: specifier_eval)

lemma format_specifiers_example3: "format_specifiers ascii_db (ustr_of ''%s has points'') = [ustr_of ''%s'']"
  by (simp add: specifier_eval)

lemma format_specifiers_example4: "format_specifiers ascii_db (ustr_of ''%d pts, player %s'') = [ustr_of ''%d'', ustr_of ''%s'']"
  by (simp add: specifier_eval)

lemma format_specifiers_example5: "format_specifiers ascii_db (ustr_of ''no placeholder'') = []"
  by (simp add: specifier_eval)

text \<open>C2 on an original with two placeholders, or none, against five translations.\<close>

theorem check_format_specifiers_cases_witness:
  "check_format_specifiers ascii_db (ustr_of ''no placeholder'') (ustr_of ''%s has %5d points'') = Inr ()
   \<and> check_format_specifiers ascii_db (ustr_of ''Player %s has %d points'') (ustr_of ''%s has points'')
       = Inl (CountMismatch (ustr_of ''Player %s has %d points'') (ustr_of ''%s has points''))
   \<and> check_format_specifiers ascii_db (ustr_of ''Player %s has %d points'') (ustr_of ''%s has %5d points'')
       = Inl (SpecifierMismatch 2 (ustr_of ''%d'') (ustr_of ''%5d''))
   \<and> check_format_specifiers ascii_db (ustr_of ''Player %s has %d points'') (ustr_of ''%d pts, player %s'')
       = Inl (SpecifierMismatch 1 (ustr_of ''%s'') (ustr_of ''%d''))
   \<and> check_format_specifiers ascii_db (ustr_of ''Player %s has %d points'') (ustr_of ''Player %s has %d points'')
       = Inr ()"
proof (intro conjI)
  show "check_format_specifiers ascii_db (ustr_of ''no placeholder'') (ustr_of ''%s has %5d points'') = Inr ()"
    using check_format_specifiers_cases [of ascii_db "ustr_of ''no placeholder''" "ustr_of ''%s has %5d points''" 0]
    unfolding format_specifiers_example5 by simp
  show "check_format_specifiers ascii_db (ustr_of ''Player %s has %d points'') (ustr_of ''%s has points'')
       = Inl (CountMismatch (ustr_of ''Player %s has %d points'') (ustr_of ''%s has points''))"
    using check_format_specifiers_cases [of ascii_db "ustr_of ''Player %s has %d points''" "ustr_of ''%s has points''" 0]
    unfolding format_specifiers_example1 format_specifiers_example3 by simp
  show "check_format_specifiers ascii_db (ustr_of ''Player %s has %d points'') (ustr_of ''%s has %5d points'')
       = Inl (SpecifierMismatch 2 (ustr_of ''%d'') (ustr_of ''%5d''))"
    using check_format_specifiers_cases [of ascii_db "ustr_of ''Player %s has %d points''" "ustr_of ''%s has %5d points''" 1]
    unfolding format_specifiers_example1 format_specifiers_example2 by (simp add: ustr_of_def)
  show "check_format_specifiers ascii_db (ustr_of ''Player %s has %d points'') (ustr_of ''%d pts, player %s'')
       = Inl (SpecifierMismatch 1 (ustr_of ''%s'') (ustr_of ''%d''))"
    using check_format_specifiers_cases [of ascii_db "ustr_of ''Player %s has %d points''" "ustr_of ''%d pts, player %s''" 0]
    unfolding format_specifiers_example1 format_specifiers_example4 by (simp add: ustr_of_def)
  show "check_format_specifiers ascii_db (ustr_of ''Player %s has %d points'') (ustr_of ''Player %s has %d points'')
       = Inr ()"
    using check_format_specifiers_cases [of ascii_db "ustr_of ''Player %s has %d points''" "ustr_of ''Player %s has %d points''" 0]
    by simp
qed


section \<open>Properties of translate_text\<close>

lemma translate_attempts_all_fail:
  "0 < n \<Longrightarrow> n \<le> retries
   \<Longrightarrow> \<forall>k<n. translate env (length (requests st) + k) text = None
   \<Longrightarrow> translate_attempts env text e retries n st =
        (Inr (Some text),
         st\<lparr>requests := requests st @ replicate n text,
            error_log := error_log st @ replicate n (TranslateError text)
                           @ [TranslateFailed text retries],
            sleeps := sleeps st @ replicate (n - 1) 1\<rparr>)"
proof (induction n arbitrary: st)
  case 0
  then show ?case by simp
next
  case (Suc m)
  from Suc.prems have none: "translate env (length (requests st)) text = None"
    by (metis add.right_neutral zero_less_Suc)
  show ?case
  proof (cases m)
    case 0
    with Suc.prems none show ?thesis by (simp add: Let_def)
  next
    case (Suc m')
    let ?st' = "st\<lparr>requests := requests st @ [text],
                    error_log := error_log st @ [TranslateError text],
                    sleeps := sleeps st @ [1]\<rparr>"
    have lt: "retries - Suc m < retries - 1" using Suc.prems Suc by arith
    have "\<forall>k<m. translate env (length (requests ?st') + k) text = None"
      using Suc.prems(3) by (auto simp: less_Suc_eq_0_disj)
    with Suc.IH [of ?st'] Suc.prems Suc
    have "translate_attempts env text e retries m ?st' =
        (Inr (Some text),
         ?st'\<lparr>requests := requests ?st' @ replicate m text,
            error_log := error_log ?st' @ replicate m (TranslateError text)
                           @ [TranslateFailed text retries],
            sleeps := sleeps ?st' @ replicate (m - 1) 1\<rparr>)"
      by simp
    with none lt Suc show ?thesis
      by (simp add: Let_def replicate_app_Cons_same)
  qed
qed


lemma Translated_Text_get_or_new:
  "(case Translated_Text (fst (get_or_new (translations_cache st) text)) of None \<Rightarrow> [] | Some t \<Rightarrow> t)
     = cached_translation st text"
  by (simp add: get_or_new_def cached_translation_def empty_entry_def split: option.splits)

lemma Translated_Text_sighted_entry:
  "(case Translated_Text (sighted_entry st text isComment p) of None \<Rightarrow> [] | Some t \<Rightarrow> t)
     = cached_translation st text"
  using Translated_Text_get_or_new [of st "text"]
  by (simp add: sighted_entry_def record_path_def record_role_def Let_def)

lemma sighted_state_simps:
  "requests (sighted_state st text isComment p) = requests st"
  "error_log (sighted_state st text isComment p) = error_log st"
  "sleeps (sighted_state st text isComment p) = sleeps st"
  "japanese_skip (sighted_state st text isComment p) = japanese_skip st"
  "t' \<noteq> text \<Longrightarrow> translations_cache (sighted_state st text isComment p) t' = translations_cache st t'"
  by (simp_all add: sighted_state_def write_back_def)

lemma sighted_state_new:
  "translations_cache st text = None \<Longrightarrow> sighted_state st text isComment p = st"
  by (simp add: sighted_state_def write_back_def get_or_new_def)

lemma translate_text_path:
  assumes "get_path_start_from_mod_folder file_path = Inr p"
  shows "translate_text env text isComment file_path retries st =
        (if cached_translation st text \<noteq> [] then
           (case check_format_specifiers (unicode env) text (cached_translation st text) of
              Inl err \<Rightarrow>
                (Inl err,
                 (sighted_state st text isComment p)
                   \<lparr>error_log := error_log (sighted_state st text isComment p) @ [Fatal err]\<rparr>)
            | Inr _ \<Rightarrow>
                (Inr (Some (cached_translation st text)),
                 (sighted_state st text isComment p)
                   \<lparr>translations_cache := (translations_cache (sighted_state st text isComment p))
                      (text \<mapsto> sighted_entry st text isComment p)\<rparr>))
         else if list_ex hiragana_katakana text then
           (Inr (Some text),
            (sighted_state st text isComment p)
              \<lparr>translations_cache := (translations_cache (sighted_state st text isComment p))
                   (text \<mapsto> (sighted_entry st text isComment p)\<lparr>Translated_Text := Some text\<rparr>),
                japanese_skip := japanese_skip (sighted_state st text isComment p) @ [text]\<rparr>)
         else translate_attempts env text (sighted_entry st text isComment p) retries retries
                (sighted_state st text isComment p))"
  unfolding Translated_Text_sighted_entry [of st "text" isComment p, symmetric]
  unfolding translate_text_def assms sighted_state_def sighted_entry_def
  by (simp add: Let_def split_beta)

lemma translate_attempts_requests:
  "\<exists>k. k \<le> n \<and> (0 < n \<longrightarrow> 0 < k)
     \<and> requests (snd (translate_attempts env text e retries n st)) = requests st @ replicate k text"
proof (induction n arbitrary: st)
  case 0
  then show ?case by simp
next
  case (Suc m)
  let ?st' = "st\<lparr>requests := requests st @ [text],
                  error_log := error_log st @ [TranslateError text],
                  sleeps := sleeps st @ [1]\<rparr>"
  show ?case
  proof (cases "translate env (length (requests st)) text")
    case (Some raw)
    then have "requests (snd (translate_attempts env text e retries (Suc m) st))
        = requests st @ replicate 1 text"
      by (simp add: Let_def split: sum.splits)
    then show ?thesis by (intro exI [of _ 1]) simp
  next
    case None
    show ?thesis
    proof (cases "retries - Suc m < retries - 1")
      case True
      from Suc.IH [of ?st'] obtain k where k: "k \<le> m"
        "requests (snd (translate_attempts env text e retries m ?st')) = requests ?st' @ replicate k text"
        by blast
      with None True
      have "requests (snd (translate_attempts env text e retries (Suc m) st))
          = requests st @ replicate (Suc k) text"
        by (simp add: Let_def replicate_app_Cons_same)
      with k(1) show ?thesis by (intro exI [of _ "Suc k"]) simp
    next
      case False
      with None have "requests (snd (translate_attempts env text e retries (Suc m) st))
          = requests st @ replicate 1 text"
        by (simp add: Let_def)
      then show ?thesis by (intro exI [of _ 1]) simp
    qed
  qed
qed

lemma translate_attempts_requests_prefix:
  assumes "0 < n"
  shows "prefix (requests st @ [text]) (requests (snd (translate_attempts env text e retries n st)))"
proof -
  from translate_attempts_requests [of n env "text" e retries st] assms
  obtain k where "0 < k"
    "requests (snd (translate_attempts env text e retries n st)) = requests st @ replicate k text"
    by auto
  then show ?thesis by (cases k) simp_all
qed

lemma translate_text_no_path:
  "get_path_start_from_mod_folder file_path = Inl x
   \<Longrightarrow> fst (translate_text env text isComment file_path retries st) = Inl x
       \<and> requests (snd (translate_text env text isComment file_path retries st)) = requests st"
  by (simp add: translate_text_def Let_def split_beta write_back_def)

lemma check_count_mismatch:
  "format_specifiers db original \<noteq> [] \<Longrightarrow>
   length (format_specifiers db original) \<noteq> length (format_specifiers db translated) \<Longrightarrow>
   check_format_specifiers db original translated = Inl (CountMismatch original translated)"
  by (simp add: check_format_specifiers_def)

lemma check_token_mismatch:
  assumes "length (format_specifiers db original) = length (format_specifiers db translated)"
    and "k < length (format_specifiers db original)"
    and "format_specifiers db original ! k \<noteq> format_specifiers db translated ! k"
    and "\<forall>j<k. format_specifiers db original ! j = format_specifiers db translated ! j"
  shows "check_format_specifiers db original translated
         = Inl (SpecifierMismatch (k + 1) (format_specifiers db original ! k)
                  (format_specifiers db translated ! k))"
proof -
  have "first_mismatch 0 (format_specifiers db original) (format_specifiers db translated)
      = Some (SpecifierMismatch (0 + k + 1) (format_specifiers db original ! k)
                (format_specifiers db translated ! k))"
    using assms by (intro first_mismatch_at) auto
  with assms(1) show ?thesis
    by (simp add: check_format_specifiers_def)
qed

lemma check_passes:
  "format_specifiers db original = []
     \<or> format_specifiers db original = format_specifiers db translated \<Longrightarrow>
   check_format_specifiers db original translated = Inr ()"
  by (auto simp add: check_format_specifiers_def first_mismatch_same)

lemma cached_translation_aliased:
  assumes "cached_translation st text \<noteq> []"
  shows "snd (get_or_new (translations_cache st) text)"
    and "Translated_Text (fst (get_or_new (translations_cache st) text))
         = Some (cached_translation st text)"
  using assms
  by (auto simp add: cached_translation_def get_or_new_def empty_entry_def split: option.splits)

lemma cached_translation_kept:
  assumes "cached_translation st text \<noteq> []"
  shows "cached_translation (snd (translate_text env text isComment file_path retries st)) text
         = cached_translation st text"
proof (cases "get_path_start_from_mod_folder file_path")
  case (Inl x)
  with cached_translation_aliased [OF assms] show ?thesis
    by (simp add: translate_text_def Let_def split_beta write_back_def cached_translation_def
        record_role_def)
next
  case (Inr p)
  have a: "translations_cache (sighted_state st text isComment p) text
      = Some (sighted_entry st text isComment p)"
    using cached_translation_aliased(1) [OF assms]
    by (simp add: sighted_state_def write_back_def)
  have b: "Translated_Text (sighted_entry st text isComment p) = Some (cached_translation st text)"
    using cached_translation_aliased(2) [OF assms]
    by (simp add: sighted_entry_def record_path_def record_role_def Let_def)
  from assms a b show ?thesis
    by (simp add: translate_text_path [OF Inr] cached_translation_def split: sum.splits)
qed

text \<open>
  C1. When the record of a fragment has a non-empty translated text, \<open>translate_text\<close>
  sends nothing to the translator, whatever the backend, the role, the path and the
  number of retries are, and the record keeps that text. If the path of the file
  resolves, the placeholders of the cached text are compared with those of the
  original on this and every such call: if the original has none, or the two sequences
  are equal, the call returns the cached text and logs nothing; if the original has
  some and the counts differ, it exits with the count mismatch and logs it; if the
  counts are equal and \<open>k\<close> is the first index at which the tokens differ, it exits
  with the mismatch at position \<open>k + 1\<close> and logs it. If the path does not resolve the
  call exits before the cache is read.
\<close>

theorem cached_translation_reused:
  assumes "cached_translation st text \<noteq> []"
  shows "requests (snd (translate_text env text isComment file_path retries st)) = requests st
    \<and> cached_translation (snd (translate_text env text isComment file_path retries st)) text
        = cached_translation st text
    \<and> (\<forall>p. get_path_start_from_mod_folder file_path = Inr p \<longrightarrow>
          fst (translate_text env text isComment file_path retries st) =
            (case check_format_specifiers (unicode env) text (cached_translation st text) of
               Inl err \<Rightarrow> Inl err
             | Inr _ \<Rightarrow> Inr (Some (cached_translation st text))))
    \<and> (\<forall>x. get_path_start_from_mod_folder file_path = Inl x \<longrightarrow>
          fst (translate_text env text isComment file_path retries st) = Inl x)
    \<and> (\<forall>p. get_path_start_from_mod_folder file_path = Inr p
           \<and> (format_specifiers (unicode env) text = []
                \<or> format_specifiers (unicode env) text
                    = format_specifiers (unicode env) (cached_translation st text)) \<longrightarrow>
          fst (translate_text env text isComment file_path retries st)
            = Inr (Some (cached_translation st text))
          \<and> error_log (snd (translate_text env text isComment file_path retries st))
              = error_log st)
    \<and> (\<forall>p. get_path_start_from_mod_folder file_path = Inr p
           \<and> format_specifiers (unicode env) text \<noteq> []
           \<and> length (format_specifiers (unicode env) text)
               \<noteq> length (format_specifiers (unicode env) (cached_translation st text)) \<longrightarrow>
          fst (translate_text env text isComment file_path retries st)
            = Inl (CountMismatch text (cached_translation st text))
          \<and> error_log (snd (translate_text env text isComment file_path retries st))
              = error_log st @ [Fatal (CountMismatch text (cached_translation st text))])
    \<and> (\<forall>p k. get_path_start_from_mod_folder file_path = Inr p
           \<and> length (format_specifiers (unicode env) text)
               = length (format_specifiers (unicode env) (cached_translation st text))
           \<and> k < length (format_specifiers (unicode env) text)
           \<and> format_specifiers (unicode env) text ! k
               \<noteq> format_specifiers (unicode env) (cached_translation st text) ! k
           \<and> (\<forall>j<k. format_specifiers (unicode env) text ! j
                      = format_specifiers (unicode env) (cached_translation st text) ! j) \<longrightarrow>
          fst (translate_text env text isComment file_path retries st)
            = Inl (SpecifierMismatch (k + 1) (format_specifiers (unicode env) text ! k)
                     (format_specifiers (unicode env) (cached_translation st text) ! k))
          \<and> error_log (snd (translate_text env text isComment file_path retries st))
              = error_log st
                  @ [Fatal (SpecifierMismatch (k + 1) (format_specifiers (unicode env) text ! k)
                       (format_specifiers (unicode env) (cached_translation st text) ! k))])"
proof (intro conjI allI impI)
  show "requests (snd (translate_text env text isComment file_path retries st)) = requests st"
  proof (cases "get_path_start_from_mod_folder file_path")
    case (Inl x)
    with translate_text_no_path [OF Inl] show ?thesis by simp
  next
    case (Inr p)
    with assms show ?thesis
      by (simp add: translate_text_path [OF Inr] sighted_state_simps split: sum.splits)
  qed
  show "cached_translation (snd (translate_text env text isComment file_path retries st)) text
        = cached_translation st text"
    using assms by (rule cached_translation_kept)
next
  fix p assume "get_path_start_from_mod_folder file_path = Inr p"
  with assms show "fst (translate_text env text isComment file_path retries st) =
            (case check_format_specifiers (unicode env) text (cached_translation st text) of
               Inl err \<Rightarrow> Inl err
             | Inr _ \<Rightarrow> Inr (Some (cached_translation st text)))"
    by (simp add: translate_text_path split: sum.splits)
next
  fix x assume "get_path_start_from_mod_folder file_path = Inl x"
  then show "fst (translate_text env text isComment file_path retries st) = Inl x"
    by (simp add: translate_text_no_path)
next
  fix p
  assume a: "get_path_start_from_mod_folder file_path = Inr p
           \<and> (format_specifiers (unicode env) text = []
                \<or> format_specifiers (unicode env) text
                    = format_specifiers (unicode env) (cached_translation st text))"
  then have c: "check_format_specifiers (unicode env) text (cached_translation st text) = Inr ()"
    by (intro check_passes) simp
  from a have p: "get_path_start_from_mod_folder file_path = Inr p" by simp
  from assms c show "fst (translate_text env text isComment file_path retries st)
            = Inr (Some (cached_translation st text))"
    by (simp add: translate_text_path [OF p])
  from assms c show "error_log (snd (translate_text env text isComment file_path retries st))
              = error_log st"
    by (simp add: translate_text_path [OF p] sighted_state_simps)
next
  fix p
  assume a: "get_path_start_from_mod_folder file_path = Inr p
           \<and> format_specifiers (unicode env) text \<noteq> []
           \<and> length (format_specifiers (unicode env) text)
               \<noteq> length (format_specifiers (unicode env) (cached_translation st text))"
  then have c: "check_format_specifiers (unicode env) text (cached_translation st text)
      = Inl (CountMismatch text (cached_translation st text))"
    by (intro check_count_mismatch) simp_all
  from a have p: "get_path_start_from_mod_folder file_path = Inr p" by simp
  from assms c show "fst (translate_text env text isComment file_path retries st)
            = Inl (CountMismatch text (cached_translation st text))"
    by (simp add: translate_text_path [OF p])
  from assms c show "error_log (snd (translate_text env text isComment file_path retries st))
              = error_log st @ [Fatal (CountMismatch text (cached_translation st text))]"
    by (simp add: translate_text_path [OF p] sighted_state_simps)
next
  fix p k
  assume a: "get_path_start_from_mod_folder file_path = Inr p
           \<and> length (format_specifiers (unicode env) text)
               = length (format_specifiers (unicode env) (cached_translation st text))
           \<and> k < length (format_specifiers (unicode env) text)
           \<and> format_specifiers (unicode env) text ! k
               \<noteq> format_specifiers (unicode env) (cached_translation st text) ! k
           \<and> (\<forall>j<k. format_specifiers (unicode env) text ! j
                      = format_specifiers (unicode env) (cached_translation st text) ! j)"
  then have c: "check_format_specifiers (unicode env) text (cached_translation st text)
      = Inl (SpecifierMismatch (k + 1) (format_specifiers (unicode env) text ! k)
                     (format_specifiers (unicode env) (cached_translation st text) ! k))"
    by (intro check_token_mismatch) simp_all
  from a have p: "get_path_start_from_mod_folder file_path = Inr p" by simp
  from assms c show "fst (translate_text env text isComment file_path retries st)
            = Inl (SpecifierMismatch (k + 1) (format_specifiers (unicode env) text ! k)
                     (format_specifiers (unicode env) (cached_translation st text) ! k))"
    by (simp add: translate_text_path [OF p])
  from assms c show "error_log (snd (translate_text env text isComment file_path retries st))
              = error_log st
                  @ [Fatal (SpecifierMismatch (k + 1) (format_specifiers (unicode env) text ! k)
                       (format_specifiers (unicode env) (cached_translation st text) ! k))]"
    by (simp add: translate_text_path [OF p] sighted_state_simps)
qed

text \<open>
  C3. For a fragment that reaches the translator (no cached translation, no kana, at
  least one attempt), if the backend raises on every attempt then \<open>translate_text\<close>
  returns the original text and does not exit; it has sent \<open>retries\<close> requests and the
  log ends with the record of the failure.
\<close>

theorem retries_exhausted_returns_original:
  assumes "get_path_start_from_mod_folder file_path = Inr p"
    and "cached_translation st text = []"
    and "\<not> list_ex hiragana_katakana text"
    and "0 < retries"
    and "\<forall>k<retries. translate env (length (requests st) + k) text = None"
  shows "fst (translate_text env text isComment file_path retries st) = Inr (Some text)
    \<and> requests (snd (translate_text env text isComment file_path retries st))
        = requests st @ replicate retries text
    \<and> error_log (snd (translate_text env text isComment file_path retries st))
        = error_log st @ replicate retries (TranslateError text) @ [TranslateFailed text retries]"
proof -
  let ?st0 = "sighted_state st text isComment p"
  have "\<forall>k<retries. translate env (length (requests ?st0) + k) text = None"
    using assms(5) by (simp add: sighted_state_simps)
  from translate_attempts_all_fail [OF assms(4) le_refl this]
  show ?thesis using assms(2,3)
    by (simp add: translate_text_path [OF assms(1)] sighted_state_simps)
qed

text \<open>
  C4. A fragment with a character in U+3040..U+30FF and no cached translation is
  returned unchanged without any request to the backend; its record gets the fragment
  itself as translated text, and the fragment is appended to \<open>japanese_skip\<close>.
\<close>

theorem japanese_fragment_skipped:
  assumes "get_path_start_from_mod_folder file_path = Inr p"
    and "cached_translation st text = []"
    and "list_ex hiragana_katakana text"
  shows "fst (translate_text env text isComment file_path retries st) = Inr (Some text)
    \<and> requests (snd (translate_text env text isComment file_path retries st)) = requests st
    \<and> map_option Translated_Text
         (translations_cache (snd (translate_text env text isComment file_path retries st)) text)
        = Some (Some text)
    \<and> japanese_skip (snd (translate_text env text isComment file_path retries st))
        = japanese_skip st @ [text]"
  using assms(2,3)
  by (simp add: translate_text_path [OF assms(1)] sighted_state_simps)
text \<open>
  C9. For a fragment without a record, if the backend raises on every attempt then
  \<open>translate_text\<close> returns the original text and the cache is unchanged, so the
  fragment still has no record: the role flag and the path put into the fresh dict are
  lost. A later call for the same fragment sends it to the translator again.
\<close>

theorem failed_translation_leaves_no_record:
  assumes "get_path_start_from_mod_folder file_path = Inr p"
    and "translations_cache st text = None"
    and "\<not> list_ex hiragana_katakana text"
    and "0 < retries"
    and "\<forall>k<retries. translate env (length (requests st) + k) text = None"
  shows "fst (translate_text env text isComment file_path retries st) = Inr (Some text)
    \<and> translations_cache (snd (translate_text env text isComment file_path retries st))
        = translations_cache st
    \<and> translations_cache (snd (translate_text env text isComment file_path retries st)) text = None
    \<and> (\<forall>env' isComment' retries'. 0 < retries' \<longrightarrow>
         prefix (requests (snd (translate_text env text isComment file_path retries st)) @ [text])
           (requests (snd (translate_text env' text isComment' file_path retries'
                       (snd (translate_text env text isComment file_path retries st))))))"
proof -
  let ?r = "translate_text env text isComment file_path retries st"
  have s0: "sighted_state st text isComment p = st"
    using assms(2) by (rule sighted_state_new)
  have c0: "cached_translation st text = []"
    using assms(2) by (simp add: cached_translation_def)
  have r: "?r = translate_attempts env text (sighted_entry st text isComment p) retries retries st"
    using c0 assms(3) by (simp add: translate_text_path [OF assms(1)] s0)
  have f: "fst ?r = Inr (Some text)" and cache: "translations_cache (snd ?r) = translations_cache st"
    by (simp_all add: r translate_attempts_all_fail [OF assms(4) le_refl assms(5)])
  have again: "prefix (requests (snd ?r) @ [text])
           (requests (snd (translate_text env' text isComment' file_path retries' (snd ?r))))"
    if pos: "0 < retries'" for env' isComment' retries'
  proof -
    define st1 where "st1 = snd ?r"
    have s1: "sighted_state st1 text isComment' p = st1"
      using assms(2) cache unfolding st1_def by (intro sighted_state_new) simp
    have c1: "cached_translation st1 text = []"
      using assms(2) cache unfolding st1_def by (simp add: cached_translation_def)
    have "translate_text env' text isComment' file_path retries' st1
        = translate_attempts env' text (sighted_entry st1 text isComment' p) retries' retries' st1"
      using c1 assms(3) by (simp add: translate_text_path [OF assms(1)] s1)
    with translate_attempts_requests_prefix [OF pos] show ?thesis
      unfolding st1_def by simp
  qed
  show ?thesis
  proof (intro conjI allI impI)
    show "fst ?r = Inr (Some text)" by (rule f)
    show "translations_cache (snd ?r) = translations_cache st" by (rule cache)
    show "translations_cache (snd ?r) text = None" using cache assms(2) by simp
    show "prefix (requests (snd ?r) @ [text])
           (requests (snd (translate_text env' text isComment' file_path retries' (snd ?r))))"
      if "0 < retries'" for env' isComment' retries'
      using that by (rule again)
  qed
qed



lemma example_path_resolves:
  "get_path_start_from_mod_folder example_path = Inr (ustr_of ''mod'' @ BACKSLASH # ustr_of ''main.lua'')"
  by (simp add: get_path_start_from_mod_folder_def example_path_def match_mod_folder_def
      mod_folder_suffix_def endswith_def py_replace_def ustr_of_def Let_def)



lemma ni_hao_plain: "\<not> list_ex hiragana_katakana ni_hao"
  by (simp add: ni_hao_def hiragana_katakana_def)

lemma cached_translation_empty_state: "cached_translation empty_state text = []"
  by (simp add: cached_translation_def empty_state_def)




text \<open>C3 at the default bound of 100 attempts, with a backend that always raises.\<close>

theorem retries_exhausted_returns_original_witness:
  "fst (translate_text (example_env []) ni_hao True example_path 100 empty_state) = Inr (Some ni_hao)
   \<and> requests (snd (translate_text (example_env []) ni_hao True example_path 100 empty_state))
       = requests empty_state @ replicate 100 ni_hao
   \<and> error_log (snd (translate_text (example_env []) ni_hao True example_path 100 empty_state))
       = error_log empty_state @ replicate 100 (TranslateError ni_hao) @ [TranslateFailed ni_hao 100]"
proof -
  have h4: "(0::nat) < 100" by simp
  have h5: "\<forall>k<100. translate (example_env []) (length (requests empty_state) + k) ni_hao = None"
    by (simp add: example_env_def)
  show ?thesis
    by (rule retries_exhausted_returns_original [OF example_path_resolves
          cached_translation_empty_state ni_hao_plain h4 h5])
qed

text \<open>C9 at the default bound, followed by a call with a backend that answers.\<close>

theorem failed_translation_leaves_no_record_witness:
  "translations_cache
     (snd (translate_text (example_env []) ni_hao False example_path 100 empty_state)) ni_hao = None
   \<and> prefix (requests (snd (translate_text (example_env []) ni_hao False example_path 100 empty_state))
              @ [ni_hao])
        (requests (snd (translate_text (example_env [(ni_hao, ustr_of ''hello'')]) ni_hao True
            example_path 100
            (snd (translate_text (example_env []) ni_hao False example_path 100 empty_state)))))"
proof -
  have h2: "translations_cache empty_state ni_hao = None" by (simp add: empty_state_def)
  have h4: "(0::nat) < 100" by simp
  have h5: "\<forall>k<100. translate (example_env []) (length (requests empty_state) + k) ni_hao = None"
    by (simp add: example_env_def)
  note c = failed_translation_leaves_no_record [OF example_path_resolves h2 ni_hao_plain h4 h5, of False]
  from c h4 show ?thesis by blast
qed

text \<open>C4 on a fragment of five hiragana.\<close>

theorem japanese_fragment_skipped_witness:
  "fst (translate_text (example_env []) konnichiwa True example_path 100 empty_state)
     = Inr (Some konnichiwa)
   \<and> requests (snd (translate_text (example_env []) konnichiwa True example_path 100 empty_state))
       = requests empty_state
   \<and> map_option Translated_Text
        (translations_cache
           (snd (translate_text (example_env []) konnichiwa True example_path 100 empty_state))
           konnichiwa) = Some (Some konnichiwa)
   \<and> japanese_skip (snd (translate_text (example_env []) konnichiwa True example_path 100 empty_state))
       = japanese_skip empty_state @ [konnichiwa]"
proof -
  have h3: "list_ex hiragana_katakana konnichiwa"
    by (simp add: konnichiwa_def hiragana_katakana_def)
  show ?thesis
    by (rule japanese_fragment_skipped [OF example_path_resolves cached_translation_empty_state h3])
qed

lemma cached_state_translation:
  "cached_translation cached_state (ni_hao @ ustr_of '' %s'') = ustr_of ''Hello %s''"
  by (simp add: cached_translation_def cached_state_def empty_state_def)

lemma cached_specifiers:
  "format_specifiers ascii_db (ni_hao @ ustr_of '' %s'') = [ustr_of ''%s'']"
  "format_specifiers ascii_db (ni_hao @ ustr_of '' %d'') = [ustr_of ''%d'']"
  "format_specifiers ascii_db (ustr_of ''Hello %s'') = [ustr_of ''%s'']"
  "format_specifiers ascii_db (ustr_of ''Hello'') = []"
  by (simp_all add: specifier_eval ni_hao_def)

lemma rejecting_state_translation:
  "cached_translation rejecting_state (ni_hao @ ustr_of '' %s'') = ustr_of ''Hello''"
  "cached_translation rejecting_state (ni_hao @ ustr_of '' %d'') = ustr_of ''Hello %s''"
  by (simp_all add: cached_translation_def rejecting_state_def empty_state_def ustr_of_def ni_hao_def)

text \<open>
  C1 on three cached translations: one that keeps the placeholder of its original, one
  that lost it, and one with another conversion; the backend would answer the first two.
\<close>

theorem cached_translation_reused_witness:
  "requests (snd (translate_text (example_env [(ni_hao @ ustr_of '' %s'', ustr_of ''hi %s'')])
                    (ni_hao @ ustr_of '' %s'') False example_path 100 cached_state))
     = requests cached_state
   \<and> fst (translate_text (example_env [(ni_hao @ ustr_of '' %s'', ustr_of ''hi %s'')])
            (ni_hao @ ustr_of '' %s'') False example_path 100 cached_state)
       = Inr (Some (ustr_of ''Hello %s''))
   \<and> requests (snd (translate_text (example_env [(ni_hao @ ustr_of '' %s'', ustr_of ''hi %s'')])
                    (ni_hao @ ustr_of '' %s'') False example_path 100 rejecting_state))
       = requests rejecting_state
   \<and> fst (translate_text (example_env [(ni_hao @ ustr_of '' %s'', ustr_of ''hi %s'')])
            (ni_hao @ ustr_of '' %s'') False example_path 100 rejecting_state)
       = Inl (CountMismatch (ni_hao @ ustr_of '' %s'') (ustr_of ''Hello''))
   \<and> error_log (snd (translate_text (example_env [(ni_hao @ ustr_of '' %s'', ustr_of ''hi %s'')])
                    (ni_hao @ ustr_of '' %s'') False example_path 100 rejecting_state))
       = error_log rejecting_state
           @ [Fatal (CountMismatch (ni_hao @ ustr_of '' %s'') (ustr_of ''Hello''))]
   \<and> fst (translate_text (example_env []) (ni_hao @ ustr_of '' %d'') True example_path 100
            rejecting_state)
       = Inl (SpecifierMismatch 1 (ustr_of ''%d'') (ustr_of ''%s''))"
proof -
  let ?env = "example_env [(ni_hao @ ustr_of '' %s'', ustr_of ''hi %s'')]"
  let ?p = "ustr_of ''mod'' @ BACKSLASH # ustr_of ''main.lua''"
  have u: "unicode ?env = ascii_db" "unicode (example_env []) = ascii_db"
    by (simp_all add: example_env_def)
  have h1: "cached_translation cached_state (ni_hao @ ustr_of '' %s'') \<noteq> []"
    unfolding cached_state_translation by (simp add: ustr_of_def)
  have h2: "cached_translation rejecting_state (ni_hao @ ustr_of '' %s'') \<noteq> []"
    unfolding rejecting_state_translation by (simp add: ustr_of_def)
  have h3: "cached_translation rejecting_state (ni_hao @ ustr_of '' %d'') \<noteq> []"
    unfolding rejecting_state_translation by (simp add: ustr_of_def)
  note c1 = cached_translation_reused [OF h1, of ?env False example_path 100]
  note c2 = cached_translation_reused [OF h2, of ?env False example_path 100]
  note c3 = cached_translation_reused [OF h3, of "example_env []" True example_path 100]
  have pass: "fst (translate_text ?env (ni_hao @ ustr_of '' %s'') False example_path 100 cached_state)
      = Inr (Some (cached_translation cached_state (ni_hao @ ustr_of '' %s'')))
    \<and> error_log (snd (translate_text ?env (ni_hao @ ustr_of '' %s'') False example_path 100
          cached_state)) = error_log cached_state"
    by (rule c1 [THEN conjunct2, THEN conjunct2, THEN conjunct2, THEN conjunct2, THEN conjunct1,
          rule_format, of ?p])
       (simp add: example_path_resolves u cached_state_translation cached_specifiers)
  have count: "fst (translate_text ?env (ni_hao @ ustr_of '' %s'') False example_path 100
        rejecting_state)
      = Inl (CountMismatch (ni_hao @ ustr_of '' %s'')
               (cached_translation rejecting_state (ni_hao @ ustr_of '' %s'')))
    \<and> error_log (snd (translate_text ?env (ni_hao @ ustr_of '' %s'') False example_path 100
          rejecting_state))
      = error_log rejecting_state
          @ [Fatal (CountMismatch (ni_hao @ ustr_of '' %s'')
                      (cached_translation rejecting_state (ni_hao @ ustr_of '' %s'')))]"
    by (rule c2 [THEN conjunct2, THEN conjunct2, THEN conjunct2, THEN conjunct2, THEN conjunct2,
          THEN conjunct1, rule_format, of ?p])
       (simp add: example_path_resolves u rejecting_state_translation cached_specifiers)
  have token: "fst (translate_text (example_env []) (ni_hao @ ustr_of '' %d'') True example_path 100
        rejecting_state)
      = Inl (SpecifierMismatch (0 + 1)
               (format_specifiers (unicode (example_env [])) (ni_hao @ ustr_of '' %d'') ! 0)
               (format_specifiers (unicode (example_env []))
                  (cached_translation rejecting_state (ni_hao @ ustr_of '' %d'')) ! 0))
    \<and> error_log (snd (translate_text (example_env []) (ni_hao @ ustr_of '' %d'') True example_path
          100 rejecting_state))
      = error_log rejecting_state
          @ [Fatal (SpecifierMismatch (0 + 1)
               (format_specifiers (unicode (example_env [])) (ni_hao @ ustr_of '' %d'') ! 0)
               (format_specifiers (unicode (example_env []))
                  (cached_translation rejecting_state (ni_hao @ ustr_of '' %d'')) ! 0))]"
    by (rule c3 [THEN conjunct2, THEN conjunct2, THEN conjunct2, THEN conjunct2, THEN conjunct2,
          THEN conjunct2, rule_format, of ?p 0])
       (unfold u rejecting_state_translation cached_specifiers,
        simp add: example_path_resolves ustr_of_def)
  from c1 [THEN conjunct1] c2 [THEN conjunct1] pass count token show ?thesis
    unfolding u cached_state_translation rejecting_state_translation cached_specifiers
    by simp
qed

section \<open>Properties of save_translations_to_google_sheets\<close>

lemma open_attempts_3:
  "open_attempts s 3 3 events =
     (case open_sheet s 0 of
        Opened \<Rightarrow> (Inr True, events)
      | OtherException \<Rightarrow> (Inl RaisedOther, events)
      | HttpError status0 \<Rightarrow>
          if status0 \<noteq> 500 \<and> status0 \<noteq> 503
          then (Inl (RaisedHttpError status0), events @ [Logged])
          else (case open_sheet s 1 of
                  Opened \<Rightarrow> (Inr True, events @ [Slept 1])
                | OtherException \<Rightarrow> (Inl RaisedOther, events @ [Slept 1])
                | HttpError status1 \<Rightarrow>
                    if status1 \<noteq> 500 \<and> status1 \<noteq> 503
                    then (Inl (RaisedHttpError status1), events @ [Slept 1, Logged])
                    else (case open_sheet s 2 of
                            Opened \<Rightarrow> (Inr True, events @ [Slept 1, Slept 2])
                          | OtherException \<Rightarrow> (Inl RaisedOther, events @ [Slept 1, Slept 2])
                          | HttpError status2 \<Rightarrow>
                              if status2 \<noteq> 500 \<and> status2 \<noteq> 503
                              then (Inl (RaisedHttpError status2),
                                    events @ [Slept 1, Slept 2, Logged])
                              else (Inr False, events @ [Slept 1, Slept 2, Slept 4]))))"
proof -
  have a: "(3::nat) - Suc (Suc (Suc 0)) = 0" "(3::nat) - Suc (Suc 0) = 1" "(3::nat) - Suc 0 = 2"
    by simp_all
  have e: "open_attempts s 3 3 events = open_attempts s 3 (Suc (Suc (Suc 0))) events"
    by (simp add: numeral_3_eq_3)
  show ?thesis
    unfolding e
    by (simp add: Let_def a split: open_outcome.splits)
qed

lemma save_server_errors:
  assumes "client_ok s"
    and "\<forall>attempt<3. open_sheet s attempt \<in> {Opened, HttpError 500, HttpError 503}"
  shows "fst (save_translations_to_google_sheets s) = Inr ()
    \<and> (\<forall>a<3. (\<forall>b<a. open_sheet s b \<noteq> Opened) \<and> open_sheet s a = Opened \<longrightarrow>
          snd (save_translations_to_google_sheets s) =
            (case upload s of
               Uploaded \<Rightarrow> map (\<lambda>i. Slept (2 ^ i)) [0 ..< a] @ [SheetCleared, SheetUpdated]
             | FailsBeforeClear \<Rightarrow>
                 save_to_local_backup s (map (\<lambda>i. Slept (2 ^ i)) [0 ..< a] @ [Logged])
             | FailsAtClear \<Rightarrow>
                 save_to_local_backup s (map (\<lambda>i. Slept (2 ^ i)) [0 ..< a] @ [Logged])
             | FailsAtUpdate \<Rightarrow>
                 save_to_local_backup s
                   (map (\<lambda>i. Slept (2 ^ i)) [0 ..< a] @ [SheetCleared, Logged])))
    \<and> ((\<forall>a<3. open_sheet s a \<noteq> Opened) \<longrightarrow>
          snd (save_translations_to_google_sheets s) =
            save_to_local_backup s (map (\<lambda>i. Slept (2 ^ i)) [0 ..< 3] @ [Logged]))
    \<and> set (save_to_local_backup s events) \<supseteq> set events
    \<and> (backup_ok s \<longrightarrow> BackupWritten \<in> set (save_to_local_backup s events))"
proof -
  have o: "open_sheet s 0 \<in> {Opened, HttpError 500, HttpError 503}"
    "open_sheet s 1 \<in> {Opened, HttpError 500, HttpError 503}"
    "open_sheet s 2 \<in> {Opened, HttpError 500, HttpError 503}"
    using assms(2) by simp_all
  have upt: "[0..<3] = [0, 1, 2::nat]" "[0..<2] = [0, 1::nat]" "[0..<1] = [0::nat]"
    by (simp_all add: upt_rec)
  note defs = save_translations_to_google_sheets_def open_attempts_3 Let_def upt
  show ?thesis
  proof (intro conjI allI impI)
    from o assms(1) show "fst (save_translations_to_google_sheets s) = Inr ()"
      by (auto simp add: defs split: upload_outcome.splits)
  next
    fix a :: nat
    assume a: "a < 3" and first: "(\<forall>b<a. open_sheet s b \<noteq> Opened) \<and> open_sheet s a = Opened"
    from a consider "a = 0" | "a = 1" | "a = 2" by arith
    then show "snd (save_translations_to_google_sheets s) =
            (case upload s of
               Uploaded \<Rightarrow> map (\<lambda>i. Slept (2 ^ i)) [0 ..< a] @ [SheetCleared, SheetUpdated]
             | FailsBeforeClear \<Rightarrow>
                 save_to_local_backup s (map (\<lambda>i. Slept (2 ^ i)) [0 ..< a] @ [Logged])
             | FailsAtClear \<Rightarrow>
                 save_to_local_backup s (map (\<lambda>i. Slept (2 ^ i)) [0 ..< a] @ [Logged])
             | FailsAtUpdate \<Rightarrow>
                 save_to_local_backup s
                   (map (\<lambda>i. Slept (2 ^ i)) [0 ..< a] @ [SheetCleared, Logged]))"
    proof cases
      case 1
      with first assms(1) show ?thesis
        by (simp add: defs split: upload_outcome.splits)
    next
      case 2
      with first have "open_sheet s 0 \<noteq> Opened" "open_sheet s 1 = Opened" by simp_all
      with o(1) assms(1) 2 show ?thesis
        by (auto simp add: defs split: upload_outcome.splits)
    next
      case 3
      with first have "open_sheet s 0 \<noteq> Opened" "open_sheet s 1 \<noteq> Opened" "open_sheet s 2 = Opened"
        by simp_all
      with o(1,2) assms(1) 3 show ?thesis
        by (auto simp add: defs split: upload_outcome.splits)
    qed
  next
    assume "\<forall>a<3. open_sheet s a \<noteq> Opened"
    then have "open_sheet s 0 \<noteq> Opened" "open_sheet s 1 \<noteq> Opened" "open_sheet s 2 \<noteq> Opened"
      by simp_all
    with o assms(1) show "snd (save_translations_to_google_sheets s) =
            save_to_local_backup s (map (\<lambda>i. Slept (2 ^ i)) [0 ..< 3] @ [Logged])"
      by (auto simp add: defs)
  next
    show "set events \<subseteq> set (save_to_local_backup s events)"
      by (auto simp add: save_to_local_backup_def)
  next
    assume "backup_ok s"
    then show "BackupWritten \<in> set (save_to_local_backup s events)"
      by (simp add: save_to_local_backup_def)
  qed
qed


lemma save_other_status_reraised:
  assumes "client_ok s" and "a < 3"
    and "\<forall>b<a. open_sheet s b \<in> {HttpError 500, HttpError 503}"
    and "open_sheet s a = HttpError status" and "status \<noteq> 500" and "status \<noteq> 503"
  shows "save_translations_to_google_sheets s
         = (Inl (RaisedHttpError status), map (\<lambda>i. Slept (2 ^ i)) [0 ..< a] @ [Logged])"
proof -
  have upt: "[0..<2] = [0, 1::nat]" "[0..<1] = [0::nat]"
    by (simp_all add: upt_rec)
  note defs = save_translations_to_google_sheets_def open_attempts_3 Let_def upt
  from assms(2) consider "a = 0" | "a = 1" | "a = 2" by arith
  then show ?thesis
  proof cases
    case 1
    with assms show ?thesis by (simp add: defs)
  next
    case 2
    with assms(3) have "open_sheet s 0 = HttpError 500 \<or> open_sheet s 0 = HttpError 503"
      by simp
    then show ?thesis
    proof
      assume "open_sheet s 0 = HttpError 500"
      with assms 2 show ?thesis by (simp add: defs)
    next
      assume "open_sheet s 0 = HttpError 503"
      with assms 2 show ?thesis by (simp add: defs)
    qed
  next
    case 3
    with assms(3) have "open_sheet s 0 = HttpError 500 \<or> open_sheet s 0 = HttpError 503"
      "open_sheet s 1 = HttpError 500 \<or> open_sheet s 1 = HttpError 503"
      by simp_all
    then consider
        "open_sheet s 0 = HttpError 500" "open_sheet s 1 = HttpError 500"
      | "open_sheet s 0 = HttpError 500" "open_sheet s 1 = HttpError 503"
      | "open_sheet s 0 = HttpError 503" "open_sheet s 1 = HttpError 500"
      | "open_sheet s 0 = HttpError 503" "open_sheet s 1 = HttpError 503"
      by blast
    then show ?thesis
    proof cases
      case 1
      with assms(1,4,5,6) \<open>a = 2\<close> show ?thesis by (simp add: defs)
    next
      case 2
      with assms(1,4,5,6) \<open>a = 2\<close> show ?thesis by (simp add: defs)
    next
      case 3
      with assms(1,4,5,6) \<open>a = 2\<close> show ?thesis by (simp add: defs)
    next
      case 4
      with assms(1,4,5,6) \<open>a = 2\<close> show ?thesis by (simp add: defs)
    qed
  qed
qed

text \<open>
  C8, as amended. With the client obtained: if every attempt to open the sheet either
  succeeds or fails with an \<open>HttpError\<close> of status 500 or 503, the save returns normally.
  There are at most three attempts, and attempt \<open>i\<close> that fails is followed by a sleep of
  \<open>2 ^ i\<close> seconds. If all three fail, the failure is logged and the local backup is
  attempted; if the sheet is opened and the upload fails, likewise. The backup writes
  the file or logs its own failure, and never raises. If an attempt fails with an
  \<open>HttpError\<close> of any other status, after attempts that failed with 500 or 503, the
  error is logged and raised again out of the save, with nothing else done.
\<close>

theorem save_retries_or_reraises:
  assumes "client_ok s"
  shows "((\<forall>attempt<3. open_sheet s attempt \<in> {Opened, HttpError 500, HttpError 503}) \<longrightarrow>
       fst (save_translations_to_google_sheets s) = Inr ()
       \<and> (\<forall>a<3. (\<forall>b<a. open_sheet s b \<noteq> Opened) \<and> open_sheet s a = Opened \<longrightarrow>
             snd (save_translations_to_google_sheets s) =
               (case upload s of
                  Uploaded \<Rightarrow> map (\<lambda>i. Slept (2 ^ i)) [0 ..< a] @ [SheetCleared, SheetUpdated]
                | FailsBeforeClear \<Rightarrow>
                    save_to_local_backup s (map (\<lambda>i. Slept (2 ^ i)) [0 ..< a] @ [Logged])
                | FailsAtClear \<Rightarrow>
                    save_to_local_backup s (map (\<lambda>i. Slept (2 ^ i)) [0 ..< a] @ [Logged])
                | FailsAtUpdate \<Rightarrow>
                    save_to_local_backup s
                      (map (\<lambda>i. Slept (2 ^ i)) [0 ..< a] @ [SheetCleared, Logged])))
       \<and> ((\<forall>a<3. open_sheet s a \<noteq> Opened) \<longrightarrow>
             snd (save_translations_to_google_sheets s) =
               save_to_local_backup s (map (\<lambda>i. Slept (2 ^ i)) [0 ..< 3] @ [Logged])))
    \<and> save_to_local_backup s events
        = events @ (if backup_ok s then [BackupWritten] else [Logged])
    \<and> (\<forall>a<3. \<forall>status.
          (\<forall>b<a. open_sheet s b \<in> {HttpError 500, HttpError 503})
            \<and> open_sheet s a = HttpError status \<and> status \<noteq> 500 \<and> status \<noteq> 503 \<longrightarrow>
          save_translations_to_google_sheets s
            = (Inl (RaisedHttpError status), map (\<lambda>i. Slept (2 ^ i)) [0 ..< a] @ [Logged]))"
proof (intro conjI allI impI)
  assume h: "\<forall>attempt<3. open_sheet s attempt \<in> {Opened, HttpError 500, HttpError 503}"
  note c = save_server_errors [OF assms h]
  show "fst (save_translations_to_google_sheets s) = Inr ()"
    by (rule c [THEN conjunct1])
  show "snd (save_translations_to_google_sheets s) =
               (case upload s of
                  Uploaded \<Rightarrow> map (\<lambda>i. Slept (2 ^ i)) [0 ..< a] @ [SheetCleared, SheetUpdated]
                | FailsBeforeClear \<Rightarrow>
                    save_to_local_backup s (map (\<lambda>i. Slept (2 ^ i)) [0 ..< a] @ [Logged])
                | FailsAtClear \<Rightarrow>
                    save_to_local_backup s (map (\<lambda>i. Slept (2 ^ i)) [0 ..< a] @ [Logged])
                | FailsAtUpdate \<Rightarrow>
                    save_to_local_backup s
                      (map (\<lambda>i. Slept (2 ^ i)) [0 ..< a] @ [SheetCleared, Logged]))"
    if "a < 3" "(\<forall>b<a. open_sheet s b \<noteq> Opened) \<and> open_sheet s a = Opened" for a
    using that by (rule c [THEN conjunct2, THEN conjunct1, rule_format])
  show "snd (save_translations_to_google_sheets s) =
               save_to_local_backup s (map (\<lambda>i. Slept (2 ^ i)) [0 ..< 3] @ [Logged])"
    if "\<forall>a<3. open_sheet s a \<noteq> Opened"
    using that by (rule c [THEN conjunct2, THEN conjunct2, THEN conjunct1, THEN mp])
next
  show "save_to_local_backup s events
        = events @ (if backup_ok s then [BackupWritten] else [Logged])"
    by (simp add: save_to_local_backup_def)
next
  fix a status
  assume "a < 3" and "(\<forall>b<a. open_sheet s b \<in> {HttpError 500, HttpError 503})
            \<and> open_sheet s a = HttpError status \<and> status \<noteq> 500 \<and> status \<noteq> 503"
  then show "save_translations_to_google_sheets s
            = (Inl (RaisedHttpError status), map (\<lambda>i. Slept (2 ^ i)) [0 ..< a] @ [Logged])"
    by (intro save_other_status_reraised [OF assms]) simp_all
qed

text \<open>
  C8 as stated fails: an \<open>HttpError\<close> with another status is logged and raised again out
  of \<open>save_translations_to_google_sheets\<close>, here status 404 on the first attempt.
\<close>

theorem save_reraises_other_http_errors:
  "save_translations_to_google_sheets (failing_store 404) = (Inl (RaisedHttpError 404), [Logged])"
  by (simp add: save_translations_to_google_sheets_def open_attempts_3 failing_store_def)

text \<open>
  C8, as amended, on three stores: every attempt answered with 503; 503 then 403; 500,
  503 and then the sheet opened.
\<close>

theorem save_retries_or_reraises_witness:
  "save_translations_to_google_sheets (failing_store 503)
     = (Inr (), [Slept 1, Slept 2, Slept 4, Logged, BackupWritten])
   \<and> save_translations_to_google_sheets (scripted_store [HttpError 503, HttpError 403])
       = (Inl (RaisedHttpError 403), [Slept 1, Logged])
   \<and> save_translations_to_google_sheets (scripted_store [HttpError 500, HttpError 503])
       = (Inr (), [Slept 1, Slept 2, SheetCleared, SheetUpdated])"
proof (intro conjI)
  have h1: "client_ok (failing_store 503)" by (simp add: failing_store_def)
  have h2: "\<forall>attempt<3. open_sheet (failing_store 503) attempt
              \<in> {Opened, HttpError 500, HttpError 503}"
    by (simp add: failing_store_def)
  have h3: "\<forall>a<3. open_sheet (failing_store 503) a \<noteq> Opened"
    by (simp add: failing_store_def)
  note c = save_retries_or_reraises [OF h1, of "[Slept 1, Slept 2, Slept 4, Logged]"]
  note a = c [THEN conjunct1, THEN mp, OF h2]
  from a [THEN conjunct1] a [THEN conjunct2, THEN conjunct2, THEN mp, OF h3]
    c [THEN conjunct2, THEN conjunct1]
  have "fst (save_translations_to_google_sheets (failing_store 503)) = Inr ()"
    "snd (save_translations_to_google_sheets (failing_store 503))
       = [Slept 1, Slept 2, Slept 4, Logged, BackupWritten]"
    by (simp_all add: failing_store_def upt_rec)
  then show "save_translations_to_google_sheets (failing_store 503)
     = (Inr (), [Slept 1, Slept 2, Slept 4, Logged, BackupWritten])"
    by (simp add: prod_eq_iff)
next
  let ?s = "scripted_store [HttpError 503, HttpError 403]"
  have h1: "client_ok ?s" by (simp add: scripted_store_def)
  have h: "(\<forall>b<1. open_sheet ?s b \<in> {HttpError 500, HttpError 503})
            \<and> open_sheet ?s 1 = HttpError 403 \<and> (403::nat) \<noteq> 500 \<and> (403::nat) \<noteq> 503"
    by (simp add: scripted_store_def)
  have l: "(1::nat) < 3" by simp
  from save_retries_or_reraises [OF h1, THEN conjunct2, THEN conjunct2, rule_format, OF l h]
  show "save_translations_to_google_sheets ?s = (Inl (RaisedHttpError 403), [Slept 1, Logged])"
    by (simp add: upt_rec)
next
  let ?s = "scripted_store [HttpError 500, HttpError 503]"
  have h1: "client_ok ?s" by (simp add: scripted_store_def)
  have h2: "\<forall>attempt<3. open_sheet ?s attempt \<in> {Opened, HttpError 500, HttpError 503}"
    by (simp add: scripted_store_def less_Suc_eq numeral_3_eq_3)
  have h3: "(\<forall>b<2. open_sheet ?s b \<noteq> Opened) \<and> open_sheet ?s 2 = Opened"
    by (simp add: scripted_store_def less_Suc_eq numeral_2_eq_2)
  have l: "(2::nat) < 3" by simp
  note a = save_retries_or_reraises [OF h1, THEN conjunct1, THEN mp, OF h2]
  from a [THEN conjunct1] a [THEN conjunct2, THEN conjunct1, rule_format, OF l h3]
  have "fst (save_translations_to_google_sheets ?s) = Inr ()"
    "snd (save_translations_to_google_sheets ?s) = [Slept 1, Slept 2, SheetCleared, SheetUpdated]"
    by (simp_all add: scripted_store_def upt_rec)
  then show "save_translations_to_google_sheets ?s
       = (Inr (), [Slept 1, Slept 2, SheetCleared, SheetUpdated])"
    by (simp add: prod_eq_iff)
qed

section \<open>Properties of translate_file\<close>

lemma strip_split:
  assumes "x \<in> set s" "\<not> P x" "\<not> Q x"
  shows "s = takeWhile P s @ rev (dropWhile Q (rev (dropWhile P s))) @ rev (takeWhile Q (rev s))"
    and "take (length s - length (dropWhile P s)) s = takeWhile P s"
    and "drop (length (rev (dropWhile Q (rev s)))) s = rev (takeWhile Q (rev s))"
proof -
  have x: "x \<in> set (dropWhile P s)"
    using assms(1,2) by (metis UnE set_append set_takeWhileD takeWhile_dropWhile_id)
  have "rev s = rev (dropWhile P s) @ rev (takeWhile P s)"
    by (metis rev_append takeWhile_dropWhile_id)
  then have t: "takeWhile Q (rev s) = takeWhile Q (rev (dropWhile P s))"
    using x assms(3) by (simp add: takeWhile_append1 [of x])
  have "rev (dropWhile P s)
      = takeWhile Q (rev (dropWhile P s)) @ dropWhile Q (rev (dropWhile P s))"
    by simp
  then have "rev (rev (dropWhile P s))
      = rev (takeWhile Q (rev (dropWhile P s)) @ dropWhile Q (rev (dropWhile P s)))"
    by (rule arg_cong)
  then have d: "dropWhile P s
      = rev (dropWhile Q (rev (dropWhile P s))) @ rev (takeWhile Q (rev s))"
    by (simp only: rev_rev_ident rev_append t)
  have "s = takeWhile P s @ dropWhile P s" by simp
  with d show "s = takeWhile P s @ rev (dropWhile Q (rev (dropWhile P s))) @ rev (takeWhile Q (rev s))"
    by metis
  have "length s = length (takeWhile P s) + length (dropWhile P s)"
    by (metis length_append takeWhile_dropWhile_id)
  then have "length s - length (dropWhile P s) = length (takeWhile P s)" by simp
  moreover have "take (length (takeWhile P s)) s = takeWhile P s"
    by (metis append_eq_conv_conj takeWhile_dropWhile_id)
  ultimately show "take (length s - length (dropWhile P s)) s = takeWhile P s" by simp
  have "rev (dropWhile Q (rev s)) @ rev (takeWhile Q (rev s)) = s"
    by (metis rev_append rev_rev_ident takeWhile_dropWhile_id)
  then show "drop (length (rev (dropWhile Q (rev s)))) s = rev (takeWhile Q (rev s))"
    by (metis append_eq_conv_conj)
qed

lemma replace_from_first:
  assumes "old \<noteq> []" "\<forall>i<length pre. \<not> prefix old (drop i (pre @ old @ post))"
  shows "replace_from 0 old new (pre @ old @ post) = pre @ new @ replace_from 0 old new post"
  using assms(2)
proof (induction pre)
  case Nil
  have skip: "replace_from k old new (xs @ post) = replace_from 0 old new post"
    if "k = length xs" for k xs
    using that by (induction xs arbitrary: k) auto
  from assms(1) obtain c cs where old: "old = c # cs" by (cases old) auto
  have "replace_from 0 old new (old @ post) = new @ replace_from (length cs) old new (cs @ post)"
    by (simp add: old)
  with skip [of "length cs" cs] show ?case by simp
next
  case (Cons a pre)
  from Cons.prems have "\<not> prefix old (a # pre @ old @ post)"
    by (metis append_Cons drop0 length_Cons zero_less_Suc)
  moreover from Cons.prems have "\<forall>i<length pre. \<not> prefix old (drop i (pre @ old @ post))"
    by (metis Suc_less_eq append_Cons drop_Suc_Cons length_Cons)
  ultimately show ?case using Cons.IH by simp
qed

lemma py_replace_first:
  assumes "old \<noteq> []" "\<forall>i<length pre. \<not> prefix old (drop i (pre @ old @ post))"
  shows "py_replace (pre @ old @ post) old new = pre @ new @ py_replace post old new"
  using assms by (simp add: py_replace_def replace_from_first)

lemma translate_text_requests:
  "\<exists>k. requests (snd (translate_text env text isComment file_path retries st))
         = requests st @ replicate k text"
proof (cases "get_path_start_from_mod_folder file_path")
  case (Inl x)
  with translate_text_no_path [OF Inl, of env "text" isComment retries st] show ?thesis
    by (intro exI [of _ 0]) simp
next
  case (Inr p)
  from translate_attempts_requests [of retries env "text" "sighted_entry st text isComment p"
      retries "sighted_state st text isComment p"]
  obtain k where k: "requests (snd (translate_attempts env text (sighted_entry st text isComment p)
      retries retries (sighted_state st text isComment p))) = requests st @ replicate k text"
    by (auto simp: sighted_state_simps)
  show ?thesis
  proof (cases "cached_translation st text \<noteq> [] \<or> list_ex hiragana_katakana text")
    case True
    then have "requests (snd (translate_text env text isComment file_path retries st)) = requests st"
      by (auto simp add: translate_text_path [OF Inr] sighted_state_simps split: sum.splits)
    then show ?thesis by (intro exI [of _ 0]) simp
  next
    case False
    with k show ?thesis
      by (intro exI [of _ k]) (simp add: translate_text_path [OF Inr])
  qed
qed

lemma translate_attempts_unfold:
  "0 < remaining \<Longrightarrow>
   translate_attempts env text translated_entry retries remaining st =
     (case translate env (length (requests st)) text of
        Some raw \<Rightarrow>
          (case check_format_specifiers (unicode env) text (normalized env raw) of
             Inl e \<Rightarrow> (Inl e, st\<lparr>requests := requests st @ [text],
                                error_log := error_log st @ [Fatal e]\<rparr>)
           | Inr _ \<Rightarrow>
               (Inr (Some (normalized env raw)),
                st\<lparr>requests := requests st @ [text],
                   translations_cache := (translations_cache st)
                     (text \<mapsto> translated_entry\<lparr>Translated_Text := Some (normalized env raw)\<rparr>)\<rparr>))
      | None \<Rightarrow>
          if retries - remaining < retries - 1
          then translate_attempts env text translated_entry retries (remaining - 1)
                 (st\<lparr>requests := requests st @ [text],
                     error_log := error_log st @ [TranslateError text],
                     sleeps := sleeps st @ [1]\<rparr>)
          else (Inr (Some text),
                st\<lparr>requests := requests st @ [text],
                   error_log := error_log st @ [TranslateError text, TranslateFailed text retries]\<rparr>))"
  by (cases remaining) (simp_all add: Let_def split: option.splits sum.splits)

lemma snd_comment_step:
  "translatable (unicode env) comment \<Longrightarrow>
   snd (comment_step env file_path comment content st)
     = snd (translate_text env (trimmed_comment comment) True file_path 100 st)"
  by (simp add: comment_step_def split: prod.splits sum.splits option.splits)

lemma japanese_mandarin_not_decoration:
  assumes "japanese_mandarin x"
  shows "x \<notin> set comment_leading_chars" "x \<notin> set comment_trailing_chars"
  using assms
  by (auto simp add: japanese_mandarin_def comment_leading_chars_def comment_trailing_chars_def
      ustr_of_def)

text \<open>
  C6, as amended. A translatable comment is its leading run of characters of
  \<^verbatim>\<open>-[= .\t\<close>, its trimmed core and its trailing run of characters of \<^verbatim>\<open>]-= .\t\<close>,
  both runs maximal. The step for the comment sends nothing but the trimmed core to the
  translator. When \<open>translate_text\<close> returns \<open>t\<close>, every occurrence of the comment that
  is still in the buffer is replaced by the leading run, \<open>t\<close> and the trailing run; in
  particular, if the first occurrence of the comment is at the end of \<open>pre\<close>, the new
  buffer continues after \<open>pre\<close> with the two runs unchanged around \<open>t\<close>.
\<close>

theorem comment_decoration_preserved:
  assumes "translatable (unicode env) comment"
  shows "comment = comment_leading comment @ trimmed_comment comment @ comment_trailing comment
    \<and> comment_leading comment = takeWhile (\<lambda>c. c \<in> set comment_leading_chars) comment
    \<and> comment_trailing comment
        = rev (takeWhile (\<lambda>c. c \<in> set comment_trailing_chars) (rev comment))
    \<and> (\<exists>k. requests (snd (comment_step env file_path comment content st))
             = requests st @ replicate k (trimmed_comment comment))
    \<and> (\<forall>t st'. translate_text env (trimmed_comment comment) True file_path 100 st
                  = (Inr (Some t), st') \<longrightarrow>
          comment_step env file_path comment content st
            = (Inr (py_replace content comment
                      (comment_leading comment @ t @ comment_trailing comment)), st')
          \<and> (\<forall>pre post. content = pre @ comment @ post
                 \<and> (\<forall>i<length pre. \<not> prefix comment (drop i content)) \<longrightarrow>
               py_replace content comment
                   (comment_leading comment @ t @ comment_trailing comment)
                 = pre @ comment_leading comment @ t @ comment_trailing comment
                     @ py_replace post comment
                         (comment_leading comment @ t @ comment_trailing comment)))"
proof -
  from assms obtain x where x: "x \<in> set comment" "japanese_mandarin x"
    by (auto simp add: translatable_def list_ex_iff)
  note nd = japanese_mandarin_not_decoration [OF x(2)]
  note sp = strip_split [where P = "\<lambda>c. c \<in> set comment_leading_chars"
      and Q = "\<lambda>c. c \<in> set comment_trailing_chars", OF x(1) nd]
  have ne: "comment \<noteq> []" using x(1) by auto
  have l: "comment_leading comment = takeWhile (\<lambda>c. c \<in> set comment_leading_chars) comment"
    using sp(2) by (simp add: comment_leading_def lstrip_chars_def)
  have t: "comment_trailing comment
        = rev (takeWhile (\<lambda>c. c \<in> set comment_trailing_chars) (rev comment))"
    using sp(3) by (simp add: comment_trailing_def rstrip_chars_def)
  have d: "comment = comment_leading comment @ trimmed_comment comment @ comment_trailing comment"
    unfolding l t using sp(1) by (simp add: trimmed_comment_def lstrip_chars_def rstrip_chars_def)
  have r: "\<exists>k. requests (snd (comment_step env file_path comment content st))
             = requests st @ replicate k (trimmed_comment comment)"
    unfolding snd_comment_step [OF assms] by (rule translate_text_requests)
  have s: "comment_step env file_path comment content st
            = (Inr (py_replace content comment
                      (comment_leading comment @ t' @ comment_trailing comment)), st')"
    if "translate_text env (trimmed_comment comment) True file_path 100 st = (Inr (Some t'), st')"
    for t' st'
    using that assms by (simp add: comment_step_def)
  have p: "py_replace content comment new = pre @ new @ py_replace post comment new"
    if "content = pre @ comment @ post" "\<forall>i<length pre. \<not> prefix comment (drop i content)"
    for pre post new
    using that py_replace_first [OF ne, of pre post new] by simp
  show ?thesis
  proof (intro conjI allI impI)
    show "comment = comment_leading comment @ trimmed_comment comment @ comment_trailing comment"
      by (rule d)
    show "comment_leading comment = takeWhile (\<lambda>c. c \<in> set comment_leading_chars) comment"
      by (rule l)
    show "comment_trailing comment
        = rev (takeWhile (\<lambda>c. c \<in> set comment_trailing_chars) (rev comment))"
      by (rule t)
    show "\<exists>k. requests (snd (comment_step env file_path comment content st))
             = requests st @ replicate k (trimmed_comment comment)"
      by (rule r)
  next
    fix t' st'
    assume "translate_text env (trimmed_comment comment) True file_path 100 st = (Inr (Some t'), st')"
    then show "comment_step env file_path comment content st
            = (Inr (py_replace content comment
                      (comment_leading comment @ t' @ comment_trailing comment)), st')"
      by (rule s)
  next
    fix t' :: ustr and pre post
    assume "content = pre @ comment @ post
                 \<and> (\<forall>i<length pre. \<not> prefix comment (drop i content))"
    then have "py_replace content comment (comment_leading comment @ t' @ comment_trailing comment)
        = pre @ (comment_leading comment @ t' @ comment_trailing comment)
            @ py_replace post comment (comment_leading comment @ t' @ comment_trailing comment)"
      by (intro p) auto
    then show "py_replace content comment
                   (comment_leading comment @ t' @ comment_trailing comment)
                 = pre @ comment_leading comment @ t' @ comment_trailing comment
                     @ py_replace post comment
                         (comment_leading comment @ t' @ comment_trailing comment)"
      by simp
  qed
qed

lemmas run_defs =
  translate_file_def comment_step_def quoted_step_def Let_def
  translate_text_path [OF example_path_resolves] sighted_state_def sighted_entry_def
  cached_translation_def record_role_def record_path_def translate_attempts_unfold
  example_env_def ascii_db_def empty_state_def ustr_of_def
  match_comment_def translatable_def japanese_mandarin_def hiragana_katakana_def
  strip_def lstrip_def rstrip_def
  comment_leading_def comment_trailing_def trimmed_comment_def lstrip_chars_def rstrip_chars_def
  comment_leading_chars_def comment_trailing_chars_def get_or_new_def write_back_def empty_entry_def
  py_replace_def capitalize_def check_format_specifiers_def format_specifiers_def
  match_specifier_def conversion_chars_def
  format_lua_content_def file_failed_def leading_space_def trailing_space_def escape_quotes_def
  check_mark_def

text \<open>
  C6 as stated fails. In a file with the comment \<open>-- X\<close> on one line and \<open>-- XY\<close> on the
  next, both are translatable and both cores are sent to the translator, but replacing
  the first comment also rewrites the start of the second, whose own replacement then
  finds nothing: the written file has the translation of \<open>X\<close> followed by \<open>Y\<close>, not
  the translated core of the second comment.
\<close>

theorem prefix_comment_not_rewritten:
  "findall_comments 0 prefix_comments = [ustr_of ''-- '' @ ni_hao, ustr_of ''-- '' @ ni_hao_ma]
   \<and> translatable ascii_db (ustr_of ''-- '' @ ni_hao_ma)
   \<and> trimmed_comment (ustr_of ''-- '' @ ni_hao_ma) = ni_hao_ma
   \<and> fst (translate_file greetings_env example_path prefix_comments empty_state)
       = Inr (Some (ustr_of ''-- Hello'' @ NEWLINE # ustr_of ''-- Hello'' @ [0x5417]))
   \<and> requests (snd (translate_file greetings_env example_path prefix_comments empty_state))
       = [ni_hao, ni_hao_ma]
   \<and> ustr_of ''-- Hello'' @ NEWLINE # ustr_of ''-- Hello'' @ [0x5417]
       \<noteq> ustr_of ''-- Hello'' @ NEWLINE # ustr_of ''-- How are you''"
  by (simp add: run_defs prefix_comments_def greetings_env_def ni_hao_def ni_hao_ma_def)

text \<open>C6, as amended, on the comment found in \<open>--- X ---\<close>, which ends before the closing dashes.\<close>

theorem comment_decoration_preserved_witness:
  "translatable (unicode greetings_env) decorated_comment
   \<and> comment_leading decorated_comment = ustr_of ''--- ''
   \<and> trimmed_comment decorated_comment = ni_hao
   \<and> comment_trailing decorated_comment = ustr_of '' ''
   \<and> fst (comment_step greetings_env example_path decorated_comment
             (decorated_comment @ ustr_of ''---'') empty_state) = Inr (ustr_of ''--- Hello ---'')"
proof -
  note defs = run_defs decorated_comment_def greetings_env_def ni_hao_def ni_hao_ma_def
  have h: "translatable (unicode greetings_env) decorated_comment"
    by (simp add: defs)
  have l: "comment_leading decorated_comment = ustr_of ''--- ''"
    and m: "trimmed_comment decorated_comment = ni_hao"
    and r: "comment_trailing decorated_comment = ustr_of '' ''"
    by (simp_all add: defs)
  have "fst (translate_text greetings_env (trimmed_comment decorated_comment) True example_path 100
          empty_state) = Inr (Some (ustr_of ''Hello''))"
    unfolding m by (simp add: defs)
  then have tt: "translate_text greetings_env (trimmed_comment decorated_comment) True example_path
      100 empty_state
        = (Inr (Some (ustr_of ''Hello'')),
           snd (translate_text greetings_env (trimmed_comment decorated_comment) True example_path
                  100 empty_state))"
    by (metis prod.collapse)
  note c = comment_decoration_preserved [OF h, of example_path
      "decorated_comment @ ustr_of ''---''" empty_state]
  from c [THEN conjunct2, THEN conjunct2, THEN conjunct2, THEN conjunct2, rule_format, OF tt,
      THEN conjunct1]
  have "fst (comment_step greetings_env example_path decorated_comment
             (decorated_comment @ ustr_of ''---'') empty_state)
      = Inr (py_replace (decorated_comment @ ustr_of ''---'') decorated_comment
               (comment_leading decorated_comment @ ustr_of ''Hello''
                  @ comment_trailing decorated_comment))"
    by simp
  also have "\<dots> = Inr (ustr_of ''--- Hello ---'')"
    unfolding l r by (simp add: py_replace_def decorated_comment_def ni_hao_def ustr_of_def)
  finally show ?thesis using h l m r by simp
qed


lemma snd_quoted_step:
  "translatable (unicode env) string \<Longrightarrow>
   snd (quoted_step env q file_path string content st)
     = snd (translate_text env (strip (unicode env) string) False file_path 100 st)"
  by (simp add: quoted_step_def Let_def split: prod.splits sum.splits option.splits)

lemma filter_sub_unescaped:
  "q \<noteq> BACKSLASH \<Longrightarrow>
   filter (\<lambda>c. c \<noteq> BACKSLASH) (sub_unescaped q b s) = filter (\<lambda>c. c \<noteq> BACKSLASH) s"
  by (induction s arbitrary: b) auto

lemma filter_escape_quotes:
  "filter (\<lambda>c. c \<noteq> BACKSLASH) (escape_quotes t) = filter (\<lambda>c. c \<noteq> BACKSLASH) t"
  by (simp add: escape_quotes_def filter_sub_unescaped)

text \<open>
  C5, as amended. A translatable single-quoted string is its leading white space, its
  stripped text and its trailing white space. The step for the string sends nothing but
  the stripped text to the translator. When \<open>translate_text\<close> returns \<open>t\<close>, every
  occurrence of the string between single quotes that is still in the buffer is
  replaced by a double-quoted string: the leading white space, \<open>escape_quotes t\<close> and the
  trailing white space. In \<open>escape_quotes t\<close> every quote of either kind follows a
  backslash, and it differs from \<open>t\<close> by backslashes only. In particular, if the first
  occurrence is at the end of \<open>pre\<close>, the new buffer continues after \<open>pre\<close> with the
  double-quoted string.
\<close>

theorem single_quoted_rewritten:
  assumes "translatable (unicode env) string"
  shows "string = leading_space (unicode env) string @ strip (unicode env) string
                    @ trailing_space (unicode env) string
    \<and> leading_space (unicode env) string = takeWhile (isspace (unicode env)) string
    \<and> trailing_space (unicode env) string = rev (takeWhile (isspace (unicode env)) (rev string))
    \<and> (\<exists>k. requests (snd (quoted_step env SQUOTE file_path string content st))
             = requests st @ replicate k (strip (unicode env) string))
    \<and> (\<forall>t st'. translate_text env (strip (unicode env) string) False file_path 100 st
                  = (Inr (Some t), st') \<longrightarrow>
          quoted_step env SQUOTE file_path string content st
            = (Inr (py_replace content (SQUOTE # string @ [SQUOTE])
                      (DQUOTE # (leading_space (unicode env) string @ escape_quotes t
                                   @ trailing_space (unicode env) string) @ [DQUOTE])), st')
          \<and> escaped DQUOTE False (escape_quotes t) \<and> escaped SQUOTE False (escape_quotes t)
          \<and> filter (\<lambda>c. c \<noteq> BACKSLASH) (escape_quotes t) = filter (\<lambda>c. c \<noteq> BACKSLASH) t
          \<and> (\<forall>pre post. content = pre @ (SQUOTE # string @ [SQUOTE]) @ post
                 \<and> (\<forall>i<length pre. \<not> prefix (SQUOTE # string @ [SQUOTE]) (drop i content)) \<longrightarrow>
               py_replace content (SQUOTE # string @ [SQUOTE])
                   (DQUOTE # (leading_space (unicode env) string @ escape_quotes t
                                @ trailing_space (unicode env) string) @ [DQUOTE])
                 = pre @ (DQUOTE # (leading_space (unicode env) string @ escape_quotes t
                                      @ trailing_space (unicode env) string) @ [DQUOTE])
                     @ py_replace post (SQUOTE # string @ [SQUOTE])
                         (DQUOTE # (leading_space (unicode env) string @ escape_quotes t
                                      @ trailing_space (unicode env) string) @ [DQUOTE])))"
proof -
  let ?sp = "isspace (unicode env)"
  from assms have "dropWhile ?sp (rev (dropWhile ?sp string)) \<noteq> []"
    by (simp add: translatable_def strip_def lstrip_def rstrip_def)
  then obtain x where "x \<in> set (rev (dropWhile ?sp string))" "\<not> ?sp x"
    by auto
  then have x: "x \<in> set string" "\<not> ?sp x"
    by (auto dest: set_dropWhileD)
  note sp = strip_split [where P = ?sp and Q = ?sp, OF x(1) x(2) x(2)]
  have l: "leading_space (unicode env) string = takeWhile ?sp string"
    using sp(2) by (simp add: leading_space_def lstrip_def)
  have t: "trailing_space (unicode env) string = rev (takeWhile ?sp (rev string))"
    using sp(3) by (simp add: trailing_space_def rstrip_def)
  have d: "string = leading_space (unicode env) string @ strip (unicode env) string
                    @ trailing_space (unicode env) string"
    unfolding l t using sp(1) by (simp add: strip_def lstrip_def rstrip_def)
  have r: "\<exists>k. requests (snd (quoted_step env SQUOTE file_path string content st))
             = requests st @ replicate k (strip (unicode env) string)"
    unfolding snd_quoted_step [OF assms] by (rule translate_text_requests)
  have s: "quoted_step env SQUOTE file_path string content st
            = (Inr (py_replace content (SQUOTE # string @ [SQUOTE])
                      (DQUOTE # (leading_space (unicode env) string @ escape_quotes t'
                                   @ trailing_space (unicode env) string) @ [DQUOTE])), st')"
    if "translate_text env (strip (unicode env) string) False file_path 100 st = (Inr (Some t'), st')"
    for t' st'
    using that assms by (simp add: quoted_step_def)
  have p: "py_replace content (SQUOTE # string @ [SQUOTE]) new
      = pre @ new @ py_replace post (SQUOTE # string @ [SQUOTE]) new"
    if "content = pre @ (SQUOTE # string @ [SQUOTE]) @ post"
      "\<forall>i<length pre. \<not> prefix (SQUOTE # string @ [SQUOTE]) (drop i content)"
    for pre post new
    using that py_replace_first [of "SQUOTE # string @ [SQUOTE]" pre post new] by simp
  show ?thesis
  proof (intro conjI allI impI)
    show "string = leading_space (unicode env) string @ strip (unicode env) string
                    @ trailing_space (unicode env) string"
      by (rule d)
    show "leading_space (unicode env) string = takeWhile ?sp string" by (rule l)
    show "trailing_space (unicode env) string = rev (takeWhile ?sp (rev string))" by (rule t)
    show "\<exists>k. requests (snd (quoted_step env SQUOTE file_path string content st))
             = requests st @ replicate k (strip (unicode env) string)"
      by (rule r)
  next
    fix t' st'
    assume "translate_text env (strip (unicode env) string) False file_path 100 st
        = (Inr (Some t'), st')"
    then show "quoted_step env SQUOTE file_path string content st
            = (Inr (py_replace content (SQUOTE # string @ [SQUOTE])
                      (DQUOTE # (leading_space (unicode env) string @ escape_quotes t'
                                   @ trailing_space (unicode env) string) @ [DQUOTE])), st')"
      by (rule s)
  next
    fix t' :: ustr
    show "escaped DQUOTE False (escape_quotes t')" "escaped SQUOTE False (escape_quotes t')"
      by (rule escaped_escape_quotes)+
    show "filter (\<lambda>c. c \<noteq> BACKSLASH) (escape_quotes t') = filter (\<lambda>c. c \<noteq> BACKSLASH) t'"
      by (rule filter_escape_quotes)
  next
    fix t' :: ustr and pre post
    assume "content = pre @ (SQUOTE # string @ [SQUOTE]) @ post
                 \<and> (\<forall>i<length pre. \<not> prefix (SQUOTE # string @ [SQUOTE]) (drop i content))"
    then show "py_replace content (SQUOTE # string @ [SQUOTE])
                   (DQUOTE # (leading_space (unicode env) string @ escape_quotes t'
                                @ trailing_space (unicode env) string) @ [DQUOTE])
                 = pre @ (DQUOTE # (leading_space (unicode env) string @ escape_quotes t'
                                      @ trailing_space (unicode env) string) @ [DQUOTE])
                     @ py_replace post (SQUOTE # string @ [SQUOTE])
                         (DQUOTE # (leading_space (unicode env) string @ escape_quotes t'
                                      @ trailing_space (unicode env) string) @ [DQUOTE])"
      by (intro p) auto
  qed
qed

text \<open>
  C5 as stated fails. The buffer holds two single-quoted strings, the second containing
  an escaped quote followed by the text of the first and its closing quote. Both are
  found and translated, but replacing the first also consumes the end of the second,
  which is then no longer in the buffer: it keeps its opening single quote.
\<close>

theorem overlapped_span_not_rewritten:
  "findall_quoted SQUOTE False 0 nested_quotes
     = [[0x4F60, BACKSLASH, BACKSLASH], [0x78, BACKSLASH, SQUOTE, 0x4F60, BACKSLASH, BACKSLASH]]
   \<and> translatable ascii_db [0x78, BACKSLASH, SQUOTE, 0x4F60, BACKSLASH, BACKSLASH]
   \<and> fst (translate_file nested_env example_path nested_quotes empty_state)
       = Inr (Some (ustr_of ''a=\"You\" b='x'' @ BACKSLASH # ustr_of ''\"You\"''))
   \<and> requests (snd (translate_file nested_env example_path nested_quotes empty_state))
       = [[0x4F60, BACKSLASH, BACKSLASH], [0x78, BACKSLASH, SQUOTE, 0x4F60, BACKSLASH, BACKSLASH]]
   \<and> ustr_of ''a=\"You\" b='x'' @ BACKSLASH # ustr_of ''\"You\"''
       \<noteq> ustr_of ''a=\"You\" b=\"Your\"''"
  by (simp add: run_defs nested_quotes_def nested_env_def)

text \<open>C5, as amended, on a string with a space at each end whose translation has quotes of both kinds.\<close>

theorem single_quoted_rewritten_witness:
  "translatable (unicode quoting_env) spaced_string
   \<and> leading_space (unicode quoting_env) spaced_string = [SPACE]
   \<and> strip (unicode quoting_env) spaced_string = ni_hao
   \<and> trailing_space (unicode quoting_env) spaced_string = [SPACE]
   \<and> fst (quoted_step quoting_env SQUOTE example_path spaced_string
             (ustr_of ''x = '' @ SQUOTE # spaced_string @ [SQUOTE]) empty_state)
       = Inr (ustr_of ''x = '' @ [DQUOTE, SPACE] @ ustr_of ''It'' @ [BACKSLASH, SQUOTE]
                @ ustr_of ''s '' @ [BACKSLASH, DQUOTE] @ ustr_of ''hi''
                @ [BACKSLASH, DQUOTE, SPACE, DQUOTE])"
proof -
  note defs = run_defs spaced_string_def quoting_env_def ni_hao_def
  have h: "translatable (unicode quoting_env) spaced_string"
    by (simp add: defs)
  have l: "leading_space (unicode quoting_env) spaced_string = [SPACE]"
    and m: "strip (unicode quoting_env) spaced_string = ni_hao"
    and r: "trailing_space (unicode quoting_env) spaced_string = [SPACE]"
    by (simp_all add: defs)
  have "fst (translate_text quoting_env (strip (unicode quoting_env) spaced_string) False
          example_path 100 empty_state)
      = Inr (Some (ustr_of ''It's '' @ DQUOTE # ustr_of ''hi'' @ [DQUOTE]))"
    unfolding m by (simp add: defs)
  then have tt: "translate_text quoting_env (strip (unicode quoting_env) spaced_string) False
      example_path 100 empty_state
        = (Inr (Some (ustr_of ''It's '' @ DQUOTE # ustr_of ''hi'' @ [DQUOTE])),
           snd (translate_text quoting_env (strip (unicode quoting_env) spaced_string) False
                  example_path 100 empty_state))"
    by (metis prod.collapse)
  note c = single_quoted_rewritten [OF h, of example_path
      "ustr_of ''x = '' @ SQUOTE # spaced_string @ [SQUOTE]" empty_state]
  from c [THEN conjunct2, THEN conjunct2, THEN conjunct2, THEN conjunct2, rule_format, OF tt,
      THEN conjunct1]
  have "fst (quoted_step quoting_env SQUOTE example_path spaced_string
             (ustr_of ''x = '' @ SQUOTE # spaced_string @ [SQUOTE]) empty_state)
      = Inr (py_replace (ustr_of ''x = '' @ SQUOTE # spaced_string @ [SQUOTE])
               (SQUOTE # spaced_string @ [SQUOTE])
               (DQUOTE # (leading_space (unicode quoting_env) spaced_string
                  @ escape_quotes (ustr_of ''It's '' @ DQUOTE # ustr_of ''hi'' @ [DQUOTE])
                  @ trailing_space (unicode quoting_env) spaced_string) @ [DQUOTE]))"
    by simp
  also have "\<dots> = Inr (ustr_of ''x = '' @ [DQUOTE, SPACE] @ ustr_of ''It'' @ [BACKSLASH, SQUOTE]
                @ ustr_of ''s '' @ [BACKSLASH, DQUOTE] @ ustr_of ''hi''
                @ [BACKSLASH, DQUOTE, SPACE, DQUOTE])"
    unfolding l r
    by (simp add: py_replace_def spaced_string_def ni_hao_def ustr_of_def escape_quotes_def)
  finally show ?thesis using h l m r by simp
qed

end
